theory Spec2Isabelle
  imports Main "HOL-Library.AList" "HOL-Library.Sublist" "HOL-Library.Multiset"
begin

section \<open>Strings and results\<close>

text \<open>
  A JavaScript string is a sequence of UTF-16 code units; a code unit is a natural
  number here.  \<open>js\<close> writes an ASCII literal of the source as such a sequence.
\<close>

type_synonym jsstring = "nat list"

definition js :: "string \<Rightarrow> jsstring" where
  "js s = map of_char s"

text \<open>
  What an operation of \<^verbatim>\<open>db.js\<close> gives back: the object \<^verbatim>\<open>{ ok: true, ... }\<close>
  with its payload, the object \<^verbatim>\<open>{ ok: false, error }\<close>, or an exception that leaves the
  function (a rejected promise).
\<close>

datatype 'a result = Ok 'a | Fail jsstring | Thrown jsstring

fun is_ok :: "'a result \<Rightarrow> bool" where
  "is_ok (Ok _) = True"
| "is_ok _ = False"

section \<open>Numbers\<close>

text \<open>
  A number of the source is an IEEE double.  The model has the doubles whose value is an
  integer, as integers; \<^verbatim>\<open>NaN\<close>, the infinities and fractions are outside it.  Comparisons
  and \<^verbatim>\<open>Math.min\<close> are exact.  A sum, a difference or a product is the exact result rounded
  to the nearest double, ties to the even significand: up to \<open>2 ^ 53\<close> in absolute value
  that is the exact result, beyond it the doubles are \<open>ulp\<close> apart.  The differences inside
  the comparators of \<^verbatim>\<open>sort\<close> are written exactly: rounding changes neither their sign nor
  whether they are zero.
\<close>

function ulp :: "int \<Rightarrow> int" where
  "ulp a = (if a < 2 ^ 53 then 1 else 2 * ulp (a div 2))"
  by pat_completeness auto
termination
  by (relation "measure nat") auto

declare ulp.simps [simp del]

definition js_round :: "int \<Rightarrow> int" where
  "js_round n =
     (let a = \<bar>n\<bar>; q = ulp a; m = a div q; r = a mod q
      in sgn n * (if q < 2 * r \<or> (q = 2 * r \<and> odd m) then m + 1 else m) * q)"

definition js_add :: "int \<Rightarrow> int \<Rightarrow> int" where
  "js_add a b = js_round (a + b)"

definition js_sub :: "int \<Rightarrow> int \<Rightarrow> int" where
  "js_sub a b = js_round (a - b)"

definition js_mul :: "int \<Rightarrow> int \<Rightarrow> int" where
  "js_mul a b = js_round (a * b)"

section \<open>Documents and collections\<close>

text \<open>
  Ids, quantities, stock and prices are such numbers; timestamps (\<^verbatim>\<open>created_at\<close>, an ISO
  string that the source compares through \<^verbatim>\<open>new Date\<close>) are the milliseconds that
  \<^verbatim>\<open>new Date\<close> reads from them.  \<^verbatim>\<open>Number\<close> applied to a number is the identity.
\<close>

record product =
  p_name :: jsstring
  p_description :: jsstring
  p_price :: int
  p_image_url :: jsstring
  p_stock :: int
  p_category :: jsstring
  p_created_at :: int

record cart_item =
  c_user_id :: int
  c_product_id :: int
  c_quantity :: int

record order_item =
  i_product_id :: int
  i_name :: jsstring
  i_quantity :: int
  i_price_at_purchase :: int

record shipping =
  shipping_name :: jsstring
  shipping_phone :: jsstring
  shipping_address :: jsstring

record order =
  o_user_id :: int
  o_total_amount :: int
  o_status :: jsstring
  o_shipping_name :: jsstring
  o_shipping_phone :: jsstring
  o_shipping_address :: jsstring
  o_created_at :: int
  o_items :: "order_item list"

text \<open>
  A collection is the list of its documents, each under its key, in the order in which
  a query enumerates them; a new document is put at the end of the list, wherever the
  store would enumerate it.  Products and orders are keyed by their number
  (\<^verbatim>\<open>String(id)\<close>), a cart row by the pair that \<^verbatim>\<open>`${uId}_${pId}`\<close> spells, a counter by its
  name.
\<close>

type_synonym cart_key = "int \<times> int"

record db =
  counters :: "(jsstring \<times> int) list"
  products :: "(int \<times> product) list"
  cart_items :: "(cart_key \<times> cart_item) list"
  orders :: "(int \<times> order) list"

text \<open>\<^verbatim>\<open>docToObject\<close>: the document's data together with its numeric id, \<^verbatim>\<open>null\<close> when absent.\<close>

definition docToObject :: "int \<Rightarrow> 'a option \<Rightarrow> (int \<times> 'a) option" where
  "docToObject i doc = (case doc of None \<Rightarrow> None | Some d \<Rightarrow> Some (i, d))"

section \<open>Transactions of the document store\<close>

text \<open>
  \<^verbatim>\<open>db.runTransaction\<close> hands the callback a transaction object: \<^verbatim>\<open>tx.get\<close> reads the state
  the transaction started from, \<^verbatim>\<open>tx.set\<close>, \<^verbatim>\<open>tx.update\<close> and \<^verbatim>\<open>tx.delete\<close> queue writes, and
  the queue is applied as a whole when the callback returns normally; an exception in the
  callback or at commit discards it.  Transactions run one at a time: contention and
  retries are outside the model.

  The client library is not part of the repository, so the one point on which stores
  differ is a parameter.  \<open>ReadsBeforeWrites\<close> is the discipline of the Firestore server
  SDK that \<^verbatim>\<open>db.js\<close> requires (\<^verbatim>\<open>firebase-admin\<close>): \<^verbatim>\<open>Transaction.get\<close> throws
  "Firestore transactions require all reads to be executed before all writes." once a
  write has been queued.  \<open>ReadsAnywhere\<close> is a store that answers such a read from the
  starting state.
\<close>

datatype tx_reads = ReadsBeforeWrites | ReadsAnywhere

datatype pending =
    SetCounter jsstring int
  | SetCart cart_key cart_item
  | DeleteCart cart_key
  | SetOrder int order
  | UpdateStock int int

record tx =
  snapshot :: db
  writes :: "pending list"

definition READ_AFTER_WRITE_ERROR_MSG :: jsstring where
  "READ_AFTER_WRITE_ERROR_MSG =
     js ''Firestore transactions require all reads to be executed before all writes.''"

definition NOT_FOUND_MSG :: jsstring where
  "NOT_FOUND_MSG = js ''5 NOT_FOUND: No document to update''"

definition tx_get :: "tx_reads \<Rightarrow> tx \<Rightarrow> (db \<Rightarrow> 'a) \<Rightarrow> jsstring + 'a" where
  "tx_get pol t read =
     (if pol = ReadsBeforeWrites \<and> writes t \<noteq> [] then Inl READ_AFTER_WRITE_ERROR_MSG
      else Inr (read (snapshot t)))"

definition tx_write :: "tx \<Rightarrow> pending \<Rightarrow> tx" where
  "tx_write t w = t\<lparr>writes := writes t @ [w]\<rparr>"

text \<open>
  One queued write applied to the store.  \<^verbatim>\<open>set\<close> (with or without \<^verbatim>\<open>merge\<close>: every field
  of the document is given at each call site) creates or overwrites, \<^verbatim>\<open>delete\<close> removes,
  \<^verbatim>\<open>update\<close> fails on a document that does not exist (\<open>NOT_FOUND_MSG\<close> abbreviates the
  store's message).
\<close>

fun apply_write :: "pending \<Rightarrow> db \<Rightarrow> jsstring + db" where
  "apply_write (SetCounter k v) d = Inr (d\<lparr>counters := AList.update k v (counters d)\<rparr>)"
| "apply_write (SetCart k c) d = Inr (d\<lparr>cart_items := AList.update k c (cart_items d)\<rparr>)"
| "apply_write (DeleteCart k) d = Inr (d\<lparr>cart_items := AList.delete k (cart_items d)\<rparr>)"
| "apply_write (SetOrder i ord) d = Inr (d\<lparr>orders := AList.update i ord (orders d)\<rparr>)"
| "apply_write (UpdateStock i s) d =
     (case map_of (products d) i of
        None \<Rightarrow> Inl NOT_FOUND_MSG
      | Some p \<Rightarrow> Inr (d\<lparr>products := AList.update i (p\<lparr>p_stock := s\<rparr>) (products d)\<rparr>))"

fun commit :: "pending list \<Rightarrow> db \<Rightarrow> jsstring + db" where
  "commit [] d = Inr d"
| "commit (w # ws) d = (case apply_write w d of Inl e \<Rightarrow> Inl e | Inr d' \<Rightarrow> commit ws d')"

definition runTransaction ::
  "(tx \<Rightarrow> jsstring + ('a \<times> tx)) \<Rightarrow> db \<Rightarrow> (jsstring + 'a) \<times> db" where
  "runTransaction updateFunction d =
     (case updateFunction \<lparr>snapshot = d, writes = []\<rparr> of
        Inl e \<Rightarrow> (Inl e, d)
      | Inr (r, t) \<Rightarrow>
          (case commit (writes t) d of
             Inl e \<Rightarrow> (Inl e, d)
           | Inr d' \<Rightarrow> (Inr r, d')))"

section \<open>The identity counter\<close>

definition nextId :: "tx_reads \<Rightarrow> jsstring \<Rightarrow> db \<Rightarrow> (jsstring + int) \<times> db" where
  "nextId pol key d =
     runTransaction (\<lambda>t.
       case tx_get pol t (\<lambda>s. map_of (counters s) key) of
         Inl e \<Rightarrow> Inl e
       | Inr snap \<Rightarrow>
           let current = (case snap of
                            None \<Rightarrow> 1
                          | Some v \<Rightarrow> if v = 0 then 1 else v)
           in Inr (current, tx_write t (SetCounter key (js_add current 1)))) d"

section \<open>The cart\<close>

definition addToCart :: "tx_reads \<Rightarrow> int \<Rightarrow> int \<Rightarrow> int \<Rightarrow> db \<Rightarrow> unit result \<times> db" where
  "addToCart pol uId pId quantity d =
     (case runTransaction (\<lambda>t.
        case tx_get pol t (\<lambda>s. map_of (products s) pId) of
          Inl e \<Rightarrow> Inl e
        | Inr None \<Rightarrow> Inr (Fail (js ''Product not found.''), t)
        | Inr (Some product) \<Rightarrow>
            if p_stock product < quantity
            then Inr (Fail (js ''Not enough stock available.''), t)
            else (case tx_get pol t (\<lambda>s. map_of (cart_items s) (uId, pId)) of
                    Inl e \<Rightarrow> Inl e
                  | Inr cartSnap \<Rightarrow>
                      let current = (case cartSnap of None \<Rightarrow> 0 | Some c \<Rightarrow> c_quantity c);
                          newQty = min (js_add current quantity) (p_stock product)
                      in Inr (Ok (),
                              tx_write t (SetCart (uId, pId)
                                \<lparr>c_user_id = uId, c_product_id = pId, c_quantity = newQty\<rparr>)))) d
      of (Inl e, d') \<Rightarrow> (Thrown e, d')
       | (Inr r, d') \<Rightarrow> (r, d'))"

text \<open>
  \<^verbatim>\<open>updateCartItem\<close> and \<^verbatim>\<open>removeCartItem\<close> write outside any transaction.  The payload of
  a success is the flag \<^verbatim>\<open>removed\<close>.
\<close>

definition updateCartItem :: "int \<Rightarrow> int \<Rightarrow> int \<Rightarrow> db \<Rightarrow> bool result \<times> db" where
  "updateCartItem uId pId quantity d =
     (if quantity \<le> 0
      then (Ok True, d\<lparr>cart_items := AList.delete (uId, pId) (cart_items d)\<rparr>)
      else (case map_of (products d) pId of
              None \<Rightarrow> (Fail (js ''Product not found.''), d)
            | Some product \<Rightarrow>
                (Ok False,
                 d\<lparr>cart_items := AList.update (uId, pId)
                      \<lparr>c_user_id = uId, c_product_id = pId,
                       c_quantity = min quantity (p_stock product)\<rparr> (cart_items d)\<rparr>)))"

definition removeCartItem :: "int \<Rightarrow> int \<Rightarrow> db \<Rightarrow> db" where
  "removeCartItem uId pId d = d\<lparr>cart_items := AList.delete (uId, pId) (cart_items d)\<rparr>"

section \<open>Checkout\<close>

text \<open>
  The first loop of the transaction in \<^verbatim>\<open>createOrder\<close>: every cart row is checked against
  the product it names and its line is pushed onto \<^verbatim>\<open>items\<close>; a \<^verbatim>\<open>throw\<close> ends the callback.
\<close>

fun createOrder_collect ::
  "tx_reads \<Rightarrow> tx \<Rightarrow> (cart_key \<times> cart_item) list \<Rightarrow> order_item list \<Rightarrow> jsstring + order_item list"
where
  "createOrder_collect pol t [] items = Inr items"
| "createOrder_collect pol t ((ref, c) # cartDocs) items =
     (case tx_get pol t (\<lambda>s. map_of (products s) (c_product_id c)) of
        Inl e \<Rightarrow> Inl e
      | Inr None \<Rightarrow> Inl (js ''Product not found in cart.'')
      | Inr (Some p) \<Rightarrow>
          if c_quantity c > p_stock p
          then Inl (js ''Insufficient stock for '' @ p_name p @ js ''.'')
          else createOrder_collect pol t cartDocs
                 (items @ [\<lparr>i_product_id = c_product_id c, i_name = p_name p,
                            i_quantity = c_quantity c, i_price_at_purchase = p_price p\<rparr>]))"

definition TYPE_ERROR_MSG :: jsstring where
  "TYPE_ERROR_MSG = js ''Cannot read properties of undefined (reading 'stock')''"

text \<open>
  The second loop: the product of every cart row is read again, its stock is rewritten
  and the row is deleted.
\<close>

fun createOrder_settle ::
  "tx_reads \<Rightarrow> (cart_key \<times> cart_item) list \<Rightarrow> tx \<Rightarrow> jsstring + tx"
where
  "createOrder_settle pol [] t = Inr t"
| "createOrder_settle pol ((ref, c) # cartDocs) t =
     (case tx_get pol t (\<lambda>s. map_of (products s) (c_product_id c)) of
        Inl e \<Rightarrow> Inl e
      | Inr None \<Rightarrow> Inl TYPE_ERROR_MSG
      | Inr (Some p) \<Rightarrow>
          createOrder_settle pol cartDocs
            (tx_write (tx_write t (UpdateStock (c_product_id c) (js_sub (p_stock p) (c_quantity c))))
               (DeleteCart ref)))"

definition order_total :: "order_item list \<Rightarrow> int" where
  "order_total items =
     foldl (\<lambda>sum i. js_add sum (js_mul (i_price_at_purchase i) (i_quantity i))) 0 items"

text \<open>
  \<^verbatim>\<open>createOrder\<close>; \<open>now\<close> is what the clock reads when the order document is built.  The
  rows of the user are queried before the transaction starts.
\<close>

definition createOrder ::
  "tx_reads \<Rightarrow> int \<Rightarrow> shipping \<Rightarrow> int \<Rightarrow> db \<Rightarrow> (int \<times> order) option result \<times> db" where
  "createOrder pol uId shipping now d =
     (let cartDocs = filter (\<lambda>(ref, c). c_user_id c = uId) (cart_items d) in
      if cartDocs = [] then (Fail (js ''Your cart is empty.''), d)
      else
        (case nextId pol (js ''orders'') d of
           (Inl e, d1) \<Rightarrow> (Thrown e, d1)
         | (Inr orderId, d1) \<Rightarrow>
             (case runTransaction (\<lambda>t.
                case createOrder_collect pol t cartDocs [] of
                  Inl e \<Rightarrow> Inl e
                | Inr items \<Rightarrow>
                    let total = order_total items;
                        t1 = tx_write t (SetOrder orderId
                               \<lparr>o_user_id = uId, o_total_amount = total,
                                o_status = js ''Pending'',
                                o_shipping_name = shipping_name shipping,
                                o_shipping_phone = shipping_phone shipping,
                                o_shipping_address = shipping_address shipping,
                                o_created_at = now, o_items = items\<rparr>)
                    in (case createOrder_settle pol cartDocs t1 of
                          Inl e \<Rightarrow> Inl e
                        | Inr t2 \<Rightarrow> Inr ((), t2))) d1
              of (Inl e, d2) \<Rightarrow> (Fail (if e = [] then js ''Order failed.'' else e), d2)
               | (Inr u, d2) \<Rightarrow> (Ok (docToObject orderId (map_of (orders d2) orderId)), d2))))"

section \<open>Sorting\<close>

text \<open>
  \<^verbatim>\<open>Array.prototype.sort\<close> with a comparator is stable: elements that compare equal keep
  their order.  It is modelled by stable insertion; \<open>cmp a b \<le> 0\<close> keeps \<open>a\<close> before \<open>b\<close>.
\<close>

fun js_insort :: "('a \<Rightarrow> 'a \<Rightarrow> int) \<Rightarrow> 'a \<Rightarrow> 'a list \<Rightarrow> 'a list" where
  "js_insort cmp x [] = [x]"
| "js_insort cmp x (y # ys) = (if cmp x y \<le> 0 then x # y # ys else y # js_insort cmp x ys)"

definition js_sort :: "('a \<Rightarrow> 'a \<Rightarrow> int) \<Rightarrow> 'a list \<Rightarrow> 'a list" where
  "js_sort cmp xs = foldr (js_insort cmp) xs []"

section \<open>Orders of a user\<close>

definition listOrdersByUser :: "int \<Rightarrow> db \<Rightarrow> (int \<times> order) list" where
  "listOrdersByUser userId d =
     js_sort (\<lambda>a b. o_created_at (snd b) - o_created_at (snd a))
       (filter (\<lambda>(i, ord). o_user_id ord = userId) (orders d))"

section \<open>Product administration\<close>

text \<open>
  The payload of \<^verbatim>\<open>updateProduct\<close> names the fields to overwrite; \<^verbatim>\<open>set\<close> with \<^verbatim>\<open>merge\<close>
  leaves the others as they are.
\<close>

record payload =
  pl_name :: "jsstring option"
  pl_description :: "jsstring option"
  pl_price :: "int option"
  pl_image_url :: "jsstring option"
  pl_stock :: "int option"
  pl_category :: "jsstring option"

definition merge_payload :: "payload \<Rightarrow> product \<Rightarrow> product" where
  "merge_payload pl p =
     \<lparr>p_name = (case pl_name pl of None \<Rightarrow> p_name p | Some v \<Rightarrow> v),
      p_description = (case pl_description pl of None \<Rightarrow> p_description p | Some v \<Rightarrow> v),
      p_price = (case pl_price pl of None \<Rightarrow> p_price p | Some v \<Rightarrow> v),
      p_image_url = (case pl_image_url pl of None \<Rightarrow> p_image_url p | Some v \<Rightarrow> v),
      p_stock = (case pl_stock pl of None \<Rightarrow> p_stock p | Some v \<Rightarrow> v),
      p_category = (case pl_category pl of None \<Rightarrow> p_category p | Some v \<Rightarrow> v),
      p_created_at = p_created_at p\<rparr>"

definition updateProduct :: "int \<Rightarrow> payload \<Rightarrow> db \<Rightarrow> (int \<times> product) option \<times> db" where
  "updateProduct i pl d =
     (case map_of (products d) i of
        None \<Rightarrow> (None, d)
      | Some p \<Rightarrow>
          let d' = d\<lparr>products := AList.update i (merge_payload pl p) (products d)\<rparr>
          in (docToObject i (map_of (products d') i), d'))"

definition deleteProduct :: "int \<Rightarrow> db \<Rightarrow> db" where
  "deleteProduct productId d =
     (let d1 = d\<lparr>products := AList.delete productId (products d)\<rparr>;
          cartSnap = filter (\<lambda>(ref, c). c_product_id c = productId) (cart_items d1)
      in d1\<lparr>cart_items := foldr (\<lambda>(ref, c). AList.delete ref) cartSnap (cart_items d1)\<rparr>)"

section \<open>Catalog search\<close>

text \<open>
  \<^verbatim>\<open>String.prototype.normalize\<close> and \<^verbatim>\<open>toLowerCase\<close> are built-ins of the language that
  work from the Unicode tables; they are parameters of the model.  \<open>basic_latin\<close> is what
  they do on strings of code units below 128: decomposition changes nothing there and
  lower-casing moves A to Z onto a to z.  \<open>is_space\<close> is the class that both \<^verbatim>\<open>trim\<close> and
  \<^verbatim>\<open>\s\<close> use.  \<open>split_ws\<close> is \<^verbatim>\<open>split(/\s+/)\<close>, \<open>js_includes s t\<close> is \<^verbatim>\<open>s.includes(t)\<close>, and
  \<^verbatim>\<open>startsWith\<close> is \<open>prefix\<close>.
\<close>

record unicode =
  nfd :: "jsstring \<Rightarrow> jsstring"
  toLowerCase :: "jsstring \<Rightarrow> jsstring"

definition basic_latin :: unicode where
  "basic_latin = \<lparr>nfd = (\<lambda>s. s),
                   toLowerCase = map (\<lambda>c. if 65 \<le> c \<and> c \<le> 90 then c + 32 else c)\<rparr>"

definition is_space :: "nat \<Rightarrow> bool" where
  "is_space c = (c \<in> {0x9, 0xA, 0xB, 0xC, 0xD, 0x20, 0xA0, 0x1680, 0x2028, 0x2029, 0x202F,
                        0x205F, 0x3000, 0xFEFF} \<or> (0x2000 \<le> c \<and> c \<le> 0x200A))"

definition trim :: "jsstring \<Rightarrow> jsstring" where
  "trim s = rev (dropWhile is_space (rev (dropWhile is_space s)))"

definition strip_diacritics :: "jsstring \<Rightarrow> jsstring" where
  "strip_diacritics s = filter (\<lambda>c. \<not> (0x300 \<le> c \<and> c \<le> 0x36F)) s"

definition replace_d_stroke :: "jsstring \<Rightarrow> jsstring" where
  "replace_d_stroke s = map (\<lambda>c. if c = 0x111 then 0x64 else c) s"

definition replace_D_stroke :: "jsstring \<Rightarrow> jsstring" where
  "replace_D_stroke s = map (\<lambda>c. if c = 0x110 then 0x44 else c) s"

definition normalizeText :: "unicode \<Rightarrow> jsstring \<Rightarrow> jsstring" where
  "normalizeText U value =
     trim (toLowerCase U (replace_D_stroke (replace_d_stroke (strip_diacritics (nfd U value)))))"

fun js_includes :: "'a list \<Rightarrow> 'a list \<Rightarrow> bool" where
  "js_includes [] t = (t = [])"
| "js_includes (x # xs) t = (prefix t (x # xs) \<or> js_includes xs t)"

function split_ws :: "jsstring \<Rightarrow> jsstring list" where
  "split_ws s =
     takeWhile (\<lambda>c. \<not> is_space c) s #
       (case dropWhile (\<lambda>c. \<not> is_space c) s of
          [] \<Rightarrow> []
        | c # cs \<Rightarrow> split_ws (dropWhile is_space cs))"
  by pat_completeness auto
termination
proof (relation "measure length")
  show "wf (measure length)" by simp
next
  fix s :: jsstring and c cs
  assume "dropWhile (\<lambda>c. \<not> is_space c) s = c # cs"
  then have "length (c # cs) \<le> length s"
    by (metis length_dropWhile_le)
  moreover have "length (dropWhile is_space cs) \<le> length cs"
    by (rule length_dropWhile_le)
  ultimately show "(dropWhile is_space cs, s) \<in> measure length" by simp
qed

declare split_ws.simps [simp del]

definition query_tokens :: "jsstring \<Rightarrow> jsstring list" where
  "query_tokens key = filter (\<lambda>t. t \<noteq> []) (split_ws key)"

definition score :: "unicode \<Rightarrow> jsstring \<Rightarrow> jsstring list \<Rightarrow> product \<Rightarrow> int" where
  "score U key tokens p =
     (let nameNorm = normalizeText U (p_name p);
          descNorm = normalizeText U (p_description p)
      in (if nameNorm = key then 100 else 0)
       + (if prefix key nameNorm then 60 else 0)
       + (if js_includes nameNorm key then 40 else 0)
       + (if tokens \<noteq> [] \<and> list_all (\<lambda>t. js_includes nameNorm t) tokens then 30 else 0)
       + (if js_includes descNorm key then 10 else 0)
       + (if tokens \<noteq> [] \<and> list_all (\<lambda>t. js_includes descNorm t) tokens then 5 else 0))"

definition listProducts :: "unicode \<Rightarrow> jsstring \<Rightarrow> jsstring \<Rightarrow> db \<Rightarrow> (int \<times> product) list" where
  "listProducts U category q d =
     (let products = (if category \<noteq> []
                      then filter (\<lambda>(i, p). p_category p = category) (products d)
                      else products d)
      in if q \<noteq> [] then
           let key = normalizeText U q;
               tokens = query_tokens key
           in map fst
                (js_sort (\<lambda>a b. if snd b - snd a \<noteq> 0 then snd b - snd a
                                 else p_created_at (snd (fst b)) - p_created_at (snd (fst a)))
                   (filter (\<lambda>x. snd x > 0)
                      (map (\<lambda>p. (p, score U key tokens (snd p))) products)))
         else js_sort (\<lambda>a b. p_created_at (snd b) - p_created_at (snd a)) products)"

section \<open>Notions used in the statements\<close>

subsection \<open>Carts\<close>

text \<open>
  Every write of a cart row goes to the document named after the pair it stores, so a
  cart built by the operations has one row per key and the key of a row is its
  \<open>(user_id, product_id)\<close>.  \<open>cart_of\<close> is the query for the rows of a user,
  \<open>cart_quantity\<close> the quantity that \<open>addToCart\<close> reads for a pair.
\<close>

definition cart_wf :: "db \<Rightarrow> bool" where
  "cart_wf d = (distinct (map fst (cart_items d)) \<and>
     list_all (\<lambda>(ref, c). ref = (c_user_id c, c_product_id c)) (cart_items d))"

definition cart_of :: "db \<Rightarrow> int \<Rightarrow> (cart_key \<times> cart_item) list" where
  "cart_of d uId = filter (\<lambda>(ref, c). c_user_id c = uId) (cart_items d)"

definition cart_quantity :: "db \<Rightarrow> int \<Rightarrow> int \<Rightarrow> int" where
  "cart_quantity d uId pId =
     (case map_of (cart_items d) (uId, pId) of None \<Rightarrow> 0 | Some c \<Rightarrow> c_quantity c)"

definition cart_positive :: "db \<Rightarrow> bool" where
  "cart_positive d = list_all (\<lambda>(ref, c). 1 \<le> c_quantity c) (cart_items d)"

subsection \<open>Checkout\<close>

text \<open>
  A row passes the check of \<open>createOrder\<close> when its product exists and has at least the
  row's quantity in stock.  \<open>cart_lines\<close> is the snapshot of the rows taken from the
  products, \<open>line_price\<close> the current price of a row's product, \<open>order_error\<close> the message
  that a failing row raises, \<open>new_order\<close> the document that is written, \<open>next_order_id\<close>
  the id that the counter issues and \<open>counted\<close> the store after it has been issued.
  \<open>settle_writes\<close> are the writes that the second loop queues.
\<close>

definition line_ok :: "db \<Rightarrow> cart_item \<Rightarrow> bool" where
  "line_ok d c =
     (case map_of (products d) (c_product_id c) of
        None \<Rightarrow> False
      | Some p \<Rightarrow> c_quantity c \<le> p_stock p)"

definition cart_lines :: "db \<Rightarrow> (cart_key \<times> cart_item) list \<Rightarrow> order_item list" where
  "cart_lines d rows =
     concat (map (\<lambda>(ref, c).
       case map_of (products d) (c_product_id c) of
         None \<Rightarrow> []
       | Some p \<Rightarrow> [\<lparr>i_product_id = c_product_id c, i_name = p_name p,
                      i_quantity = c_quantity c, i_price_at_purchase = p_price p\<rparr>]) rows)"

definition line_price :: "db \<Rightarrow> cart_item \<Rightarrow> int" where
  "line_price d c =
     (case map_of (products d) (c_product_id c) of None \<Rightarrow> 0 | Some p \<Rightarrow> p_price p)"

definition order_error :: "db \<Rightarrow> cart_item \<Rightarrow> jsstring" where
  "order_error d c =
     (case map_of (products d) (c_product_id c) of
        None \<Rightarrow> js ''Product not found in cart.''
      | Some p \<Rightarrow> js ''Insufficient stock for '' @ p_name p @ js ''.'')"

definition next_order_id :: "db \<Rightarrow> int" where
  "next_order_id d =
     (case map_of (counters d) (js ''orders'') of None \<Rightarrow> 1 | Some v \<Rightarrow> if v = 0 then 1 else v)"

definition new_order :: "int \<Rightarrow> shipping \<Rightarrow> int \<Rightarrow> order_item list \<Rightarrow> order" where
  "new_order uId sh now items =
     \<lparr>o_user_id = uId, o_total_amount = order_total items, o_status = js ''Pending'',
      o_shipping_name = shipping_name sh, o_shipping_phone = shipping_phone sh,
      o_shipping_address = shipping_address sh, o_created_at = now, o_items = items\<rparr>"

definition counted :: "db \<Rightarrow> db" where
  "counted d = d\<lparr>counters := AList.update (js ''orders'') (js_add (next_order_id d) 1) (counters d)\<rparr>"

definition settle_writes :: "db \<Rightarrow> (cart_key \<times> cart_item) list \<Rightarrow> pending list" where
  "settle_writes snap rows =
     concat (map (\<lambda>(ref, c).
       case map_of (products snap) (c_product_id c) of
         None \<Rightarrow> []
       | Some p \<Rightarrow> [UpdateStock (c_product_id c) (js_sub (p_stock p) (c_quantity c)), DeleteCart ref]) rows)"

definition stock_nonneg :: "db \<Rightarrow> bool" where
  "stock_nonneg d = list_all (\<lambda>(i, p). 0 \<le> p_stock p) (products d)"

subsection \<open>Sequences of operations\<close>

datatype cart_op =
    AddToCart int int int
  | UpdateCartItem int int int
  | PlaceOrder int shipping int

fun apply_op :: "tx_reads \<Rightarrow> cart_op \<Rightarrow> db \<Rightarrow> db" where
  "apply_op pol (AddToCart uId pId quantity) d = snd (addToCart pol uId pId quantity d)"
| "apply_op pol (UpdateCartItem uId pId quantity) d = snd (updateCartItem uId pId quantity d)"
| "apply_op pol (PlaceOrder uId sh now) d = snd (createOrder pol uId sh now d)"

definition run_ops :: "tx_reads \<Rightarrow> cart_op list \<Rightarrow> db \<Rightarrow> db" where
  "run_ops pol ops d = fold (apply_op pol) ops d"

subsection \<open>Search\<close>

text \<open>
  \<open>candidates\<close> are the products that are scored, \<open>lowered\<close> is the string that
  \<open>normalizeText\<close> trims.  \<open>claimed_tokens\<close> tokenizes a string on whitespace by reading it
  once from the left: a whitespace character ends the word read so far, and only words
  with a character in them are tokens.  \<open>claimed_score\<close> is the score in the words of the
  specification: the six amounts are added, the fourth and the sixth whenever every such
  token of the normalized query is a substring.
\<close>

fun claimed_tokens_from :: "jsstring \<Rightarrow> jsstring \<Rightarrow> jsstring list" where
  "claimed_tokens_from word [] = (if word = [] then [] else [word])"
| "claimed_tokens_from word (c # cs) =
     (if is_space c
      then (if word = [] then claimed_tokens_from [] cs else word # claimed_tokens_from [] cs)
      else claimed_tokens_from (word @ [c]) cs)"

definition claimed_tokens :: "jsstring \<Rightarrow> jsstring list" where
  "claimed_tokens key = claimed_tokens_from [] key"

text \<open>
  What a token of a string is, without reading it in any order: a non-empty piece of the
  string without whitespace that has whitespace or the end of the string on both sides.
\<close>

definition is_token :: "jsstring \<Rightarrow> jsstring \<Rightarrow> bool" where
  "is_token key t \<longleftrightarrow>
     t \<noteq> [] \<and> (\<forall>c \<in> set t. \<not> is_space c) \<and>
     (\<exists>pre post. key = pre @ t @ post
        \<and> (pre = [] \<or> is_space (last pre)) \<and> (post = [] \<or> is_space (hd post)))"

definition candidates :: "jsstring \<Rightarrow> db \<Rightarrow> (int \<times> product) list" where
  "candidates category d =
     (if category \<noteq> [] then filter (\<lambda>(i, p). p_category p = category) (products d)
      else products d)"

definition lowered :: "unicode \<Rightarrow> jsstring \<Rightarrow> jsstring" where
  "lowered U value =
     toLowerCase U (replace_D_stroke (replace_d_stroke (strip_diacritics (nfd U value))))"

definition claimed_score :: "unicode \<Rightarrow> jsstring \<Rightarrow> product \<Rightarrow> int" where
  "claimed_score U q p =
     (let key = normalizeText U q;
          name = normalizeText U (p_name p);
          description = normalizeText U (p_description p)
      in (if name = key then 100 else 0)
       + (if prefix key name then 60 else 0)
       + (if sublist key name then 40 else 0)
       + (if \<forall>t \<in> set (claimed_tokens key). sublist t name then 30 else 0)
       + (if sublist key description then 10 else 0)
       + (if \<forall>t \<in> set (claimed_tokens key). sublist t description then 5 else 0))"

section \<open>Sample stores\<close>

definition phoneA :: product where
  "phoneA = \<lparr>p_name = js ''Phone A'', p_description = js ''A phone.'', p_price = 100,
              p_image_url = js ''/uploads/a.png'', p_stock = 5, p_category = js ''Phone'',
              p_created_at = 1000\<rparr>"

definition phoneB :: product where
  "phoneB = \<lparr>p_name = js ''Phone B'', p_description = js ''Another phone.'', p_price = 250,
              p_image_url = js ''/uploads/b.png'', p_stock = 3, p_category = js ''Phone'',
              p_created_at = 2000\<rparr>"

definition iphone16 :: product where
  "iphone16 = \<lparr>p_name = js ''iPhone 16 Pro'',
     p_description = js ''Latest Apple flagship with advanced camera system.'', p_price = 1299,
     p_image_url = js ''/uploads/iphone.png'', p_stock = 15, p_category = js ''Phone'',
     p_created_at = 1\<rparr>"

definition earbuds :: product where
  "earbuds = \<lparr>p_name = js ''Wireless Earbuds Pro'',
     p_description = js ''Noise-cancelling earbuds with long battery life.'', p_price = 149,
     p_image_url = js ''/uploads/earbuds.png'', p_stock = 45, p_category = js ''Accessory'',
     p_created_at = 2\<rparr>"

definition ship0 :: shipping where
  "ship0 = \<lparr>shipping_name = js ''Ann'', shipping_phone = js ''555'', shipping_address = js ''1 Main St''\<rparr>"

definition new_price :: payload where
  "new_price = \<lparr>pl_name = None, pl_description = None, pl_price = Some 120,
                 pl_image_url = None, pl_stock = Some 0, pl_category = None\<rparr>"

definition order_of :: "int \<Rightarrow> int \<Rightarrow> order" where
  "order_of uId created =
     \<lparr>o_user_id = uId, o_total_amount = 200, o_status = js ''Pending'',
      o_shipping_name = js ''N'', o_shipping_phone = js ''0'', o_shipping_address = js ''A'',
      o_created_at = created,
      o_items = [\<lparr>i_product_id = 7, i_name = js ''Phone A'', i_quantity = 2,
                  i_price_at_purchase = 100\<rparr>]\<rparr>"

definition shop_empty_cart :: db where
  "shop_empty_cart = \<lparr>counters = [], products = [(7, phoneA)], cart_items = [], orders = []\<rparr>"



definition shop_sold_out :: db where
  "shop_sold_out = \<lparr>counters = [], products = [(7, phoneA\<lparr>p_stock := 0\<rparr>)],
                     cart_items = [], orders = []\<rparr>"

definition shop_orders :: db where
  "shop_orders = \<lparr>counters = [(js ''orders'', 4)], products = [(7, phoneA)],
                   cart_items = [((1, 7), \<lparr>c_user_id = 1, c_product_id = 7, c_quantity = 3\<rparr>),
                                 ((2, 7), \<lparr>c_user_id = 2, c_product_id = 7, c_quantity = 1\<rparr>)],
                   orders = [(1, order_of 1 10), (2, order_of 2 20), (3, order_of 1 30)]\<rparr>"

definition shop_checkout :: db where
  "shop_checkout = \<lparr>counters = [(js ''orders'', 1)], products = [(7, phoneA)],
                    cart_items = [((1, 7), \<lparr>c_user_id = 1, c_product_id = 7, c_quantity = 2\<rparr>)],
                    orders = []\<rparr>"

definition shop_two_lines :: db where
  "shop_two_lines = \<lparr>counters = [(js ''orders'', 1)], products = [(7, phoneA), (8, phoneB)],
                    cart_items = [((1, 7), \<lparr>c_user_id = 1, c_product_id = 7, c_quantity = 2\<rparr>),
                                  ((1, 8), \<lparr>c_user_id = 1, c_product_id = 8, c_quantity = 9\<rparr>)],
                    orders = []\<rparr>"

definition charger :: product where
  "charger = \<lparr>p_name = js ''65W Fast Charger'',
     p_description = js ''Universal USB-C fast charger for phones and tablets.'', p_price = 39,
     p_image_url = js ''/uploads/charger.png'', p_stock = 100, p_category = js ''Accessory'',
     p_created_at = 3\<rparr>"

definition pro_stand :: product where
  "pro_stand = \<lparr>p_name = js ''Pro'', p_description = js ''Desk stand.'', p_price = 25,
     p_image_url = js ''/uploads/stand.png'', p_stock = 8, p_category = js ''Accessory'',
     p_created_at = 0\<rparr>"

definition cover :: product where
  "cover = \<lparr>p_name = js ''Cover'', p_description = js ''Protective cover.'', p_price = 12,
     p_image_url = js ''/uploads/cover.png'', p_stock = 60, p_category = js ''Accessory'',
     p_created_at = 4\<rparr>"

definition shelf :: db where
  "shelf = \<lparr>counters = [],
             products = [(1, iphone16), (4, charger), (5, earbuds), (9, pro_stand), (11, cover)],
             cart_items = [], orders = []\<rparr>"

definition catalog :: db where
  "catalog = \<lparr>counters = [], products = [(1, iphone16), (5, earbuds)], cart_items = [], orders = []\<rparr>"

section \<open>Properties of the numbers\<close>

lemma ulp_small: "a < 2 ^ 53 \<Longrightarrow> ulp a = 1"
  by (subst ulp.simps) simp

lemma ulp_pos: "0 < ulp a"
  by (induction a rule: ulp.induct) (subst ulp.simps, simp)

lemma ulp_le: "1 \<le> a \<Longrightarrow> ulp a \<le> a"
proof (induction a rule: ulp.induct)
  case (1 a)
  show ?case
  proof (cases "a < 2 ^ 53")
    case True
    with "1.prems" show ?thesis by (simp add: ulp_small)
  next
    case False
    then have "1 \<le> a div 2" by simp
    with "1.IH" False have "ulp (a div 2) \<le> a div 2" by simp
    moreover have "ulp a = 2 * ulp (a div 2)"
      using False by (subst ulp.simps) simp
    ultimately show ?thesis by simp
  qed
qed

lemma js_round_exact: "\<bar>n\<bar> \<le> 2 ^ 53 \<Longrightarrow> js_round n = n"
proof (cases "\<bar>n\<bar> < 2 ^ 53")
  case True
  then show ?thesis by (simp add: js_round_def ulp_small Let_def mult_sgn_abs)
next
  case False
  assume "\<bar>n\<bar> \<le> 2 ^ 53"
  with False have a: "\<bar>n\<bar> = 2 ^ 53" by simp
  have "ulp 9007199254740992 = 2 * ulp (9007199254740992 div 2)"
    by (subst ulp.simps) simp
  also have "\<dots> = 2" by (simp add: ulp_small)
  finally have u: "ulp 9007199254740992 = 2" .
  have "sgn n * \<bar>n\<bar> = n" by (rule mult_sgn_abs)
  then show ?thesis
    by (simp add: js_round_def Let_def a u)
qed

lemma js_round_nonneg: "0 \<le> n \<Longrightarrow> 0 \<le> js_round n"
  using ulp_pos [of "\<bar>n\<bar>"]
  by (auto simp: js_round_def Let_def sgn_if pos_imp_zdiv_nonneg_iff intro!: mult_nonneg_nonneg)

lemma js_round_pos:
  assumes "1 \<le> n"
  shows "1 \<le> js_round n"
proof -
  let ?q = "ulp \<bar>n\<bar>"
  let ?m = "\<bar>n\<bar> div ?q"
  have q: "0 < ?q" by (rule ulp_pos)
  have "?q \<le> \<bar>n\<bar>" using assms by (intro ulp_le) simp
  with q have "0 < ?m" by (simp add: pos_imp_zdiv_pos_iff)
  then have m: "1 \<le> ?m" by simp
  have "1 * 1 \<le> (if ?q < 2 * (\<bar>n\<bar> mod ?q) \<or> (?q = 2 * (\<bar>n\<bar> mod ?q) \<and> odd ?m) then ?m + 1 else ?m) * ?q"
    using m q by (intro mult_mono) auto
  with assms show ?thesis by (simp add: js_round_def Let_def)
qed

lemma js_add_exact: "\<bar>a + b\<bar> \<le> 2 ^ 53 \<Longrightarrow> js_add a b = a + b"
  by (simp add: js_add_def js_round_exact)

lemma js_sub_exact: "\<bar>a - b\<bar> \<le> 2 ^ 53 \<Longrightarrow> js_sub a b = a - b"
  by (simp add: js_sub_def js_round_exact)

lemma js_mul_exact: "\<bar>a * b\<bar> \<le> 2 ^ 53 \<Longrightarrow> js_mul a b = a * b"
  by (simp add: js_mul_def js_round_exact)

text \<open>Rounding keeps the sign, which is all that a comparator of \<^verbatim>\<open>sort\<close> passes on.\<close>

lemma js_round_minus: "js_round (- n) = - js_round n"
  by (simp add: js_round_def Let_def)

lemma js_round_le_zero: "js_round n \<le> 0 \<longleftrightarrow> n \<le> 0"
proof (cases "1 \<le> n")
  case True
  with js_round_pos [of n] show ?thesis by simp
next
  case False
  then have "0 \<le> js_round (- n)" by (intro js_round_nonneg) simp
  with False show ?thesis by (simp add: js_round_minus)
qed

lemma js_round_eq_zero: "js_round n = 0 \<longleftrightarrow> n = 0"
proof (cases "n = 0")
  case True
  then show ?thesis by (simp add: js_round_exact)
next
  case False
  then consider "1 \<le> n" | "1 \<le> - n" by linarith
  then show ?thesis
  proof cases
    case 1
    with js_round_pos [of n] False show ?thesis by simp
  next
    case 2
    with js_round_pos [of "- n"] False show ?thesis by (simp add: js_round_minus)
  qed
qed

lemma js_sub_nonneg: "b \<le> a \<Longrightarrow> 0 \<le> js_sub a b"
  by (simp add: js_sub_def js_round_nonneg)

lemma js_add_pos: "0 \<le> a \<Longrightarrow> 1 \<le> b \<Longrightarrow> 1 \<le> js_add a b"
  by (simp add: js_add_def js_round_pos)


section \<open>Properties of the cart\<close>

lemma addToCart_eval:
  "addToCart pol uId pId q d =
     (case map_of (products d) pId of
        None \<Rightarrow> (Fail (js ''Product not found.''), d)
      | Some p \<Rightarrow>
          if p_stock p < q then (Fail (js ''Not enough stock available.''), d)
          else (Ok (),
                d\<lparr>cart_items := AList.update (uId, pId)
                     \<lparr>c_user_id = uId, c_product_id = pId,
                      c_quantity = min (js_add (cart_quantity d uId pId) q) (p_stock p)\<rparr>
                     (cart_items d)\<rparr>))"
  by (simp add: addToCart_def runTransaction_def tx_get_def tx_write_def Let_def
      cart_quantity_def split: option.splits)


lemma list_all_update:
  "list_all P al \<Longrightarrow> P (k, v) \<Longrightarrow> list_all P (AList.update k v al)"
  by (induction al) auto

lemma list_all_delete:
  "list_all P al \<Longrightarrow> list_all P (AList.delete k al)"
  by (induction al) auto



lemma cart_wf_delete:
  "cart_wf d \<Longrightarrow> cart_wf (d\<lparr>cart_items := AList.delete k (cart_items d)\<rparr>)"
  by (simp add: cart_wf_def distinct_delete list_all_delete)




text \<open>
  C5.  The claim that stock 5, an empty cart and a request of 10 give a success with
  quantity 5 fails: the request is refused and no row is written.
\<close>

theorem addToCart_clamp_counterexample:
  "fst (addToCart ReadsBeforeWrites 1 7 10 shop_empty_cart) = Fail (js ''Not enough stock available.'')
   \<and> map_of (cart_items (snd (addToCart ReadsBeforeWrites 1 7 10 shop_empty_cart))) (1, 7) = None"
  by (simp add: addToCart_eval shop_empty_cart_def phoneA_def)

text \<open>
  C5, as amended.  For a product with stock 5 and no cart row of the pair, a request of
  10 fails with "Not enough stock available." and the store is unchanged.  The clamp
  applies to a request within stock: on a row of quantity 3, a request of 4 succeeds and
  leaves quantity 5.
\<close>

theorem addToCart_over_stock:
  assumes "map_of (products d) pId = Some p" and "p_stock p = 5"
  shows "(map_of (cart_items d) (uId, pId) = None \<longrightarrow>
            addToCart pol uId pId 10 d = (Fail (js ''Not enough stock available.''), d))
       \<and> (\<forall>c. map_of (cart_items d) (uId, pId) = Some c \<and> c_quantity c = 3 \<longrightarrow>
            fst (addToCart pol uId pId 4 d) = Ok ()
          \<and> map_of (cart_items (snd (addToCart pol uId pId 4 d))) (uId, pId) =
              Some \<lparr>c_user_id = uId, c_product_id = pId, c_quantity = 5\<rparr>)"
  using assms by (simp add: addToCart_eval cart_quantity_def update_conv' js_add_exact)

theorem addToCart_over_stock_witness:
  "map_of (products shop_empty_cart) 7 = Some phoneA \<and> p_stock phoneA = 5
   \<and> map_of (cart_items shop_empty_cart) (1, 7) = None
   \<and> addToCart ReadsAnywhere 1 7 10 shop_empty_cart =
       (Fail (js ''Not enough stock available.''), shop_empty_cart)"
  using addToCart_over_stock [of shop_empty_cart 7 phoneA 1 ReadsAnywhere]
  by (simp add: shop_empty_cart_def phoneA_def)

text \<open>
  C6.  Every cart row should have a quantity of at least 1.  On a product whose stock is
  0, \<open>updateCartItem\<close> with quantity 1 passes the \<open>quantity \<le> 0\<close> test, clamps to the stock
  and writes a row of quantity 0.
\<close>

theorem updateCartItem_zero_row:
  "updateCartItem 1 7 1 shop_sold_out =
     (Ok False,
      shop_sold_out\<lparr>cart_items := [((1, 7), \<lparr>c_user_id = 1, c_product_id = 7, c_quantity = 0\<rparr>)]\<rparr>)
   \<and> \<not> cart_positive (snd (updateCartItem 1 7 1 shop_sold_out))"
  by (simp add: updateCartItem_def shop_sold_out_def phoneA_def cart_positive_def)

text \<open>
  The other paths keep quantities positive: \<open>addToCart\<close> with a request of at least 1,
  \<open>removeCartItem\<close>, and \<open>updateCartItem\<close> on a product that has stock.
\<close>

lemma cart_positive_addToCart:
  assumes "1 \<le> q" and "cart_positive d"
  shows "cart_positive (snd (addToCart pol uId pId q d))"
proof -
  have "0 \<le> cart_quantity d uId pId"
    using assms(2) by (auto simp: cart_positive_def cart_quantity_def list_all_iff
        split: option.splits dest!: map_of_SomeD)
  with assms(1) have "1 \<le> js_add (cart_quantity d uId pId) q"
    by (simp add: js_add_pos)
  with assms show ?thesis
    by (auto simp: addToCart_eval cart_positive_def split: option.splits intro!: list_all_update)
qed

lemma cart_positive_removeCartItem:
  "cart_positive d \<Longrightarrow> cart_positive (removeCartItem uId pId d)"
  by (simp add: cart_positive_def removeCartItem_def list_all_delete)

lemma cart_positive_updateCartItem:
  assumes "cart_positive d" and "\<forall>p. map_of (products d) pId = Some p \<longrightarrow> 1 \<le> p_stock p"
  shows "cart_positive (snd (updateCartItem uId pId q d))"
  using assms
  by (auto simp: updateCartItem_def cart_positive_def list_all_delete
      split: option.splits intro!: list_all_update)

section \<open>Properties of sorting and of the order history\<close>

lemma mset_js_insort: "mset (js_insort cmp x ys) = add_mset x (mset ys)"
  by (induction ys) simp_all

lemma mset_js_sort: "mset (js_sort cmp xs) = mset xs"
  by (induction xs) (simp_all add: js_sort_def mset_js_insort)

lemma set_js_insort: "set (js_insort cmp x ys) = insert x (set ys)"
  by (induction ys) auto

lemma sorted_js_insort:
  assumes total: "\<And>a b. cmp a b \<le> 0 \<or> cmp b a \<le> 0"
    and trans: "\<And>a b c. cmp a b \<le> 0 \<Longrightarrow> cmp b c \<le> 0 \<Longrightarrow> cmp a c \<le> 0"
  shows "sorted_wrt (\<lambda>a b. cmp a b \<le> 0) ys \<Longrightarrow> sorted_wrt (\<lambda>a b. cmp a b \<le> 0) (js_insort cmp x ys)"
proof (induction ys)
  case Nil
  then show ?case by simp
next
  case (Cons y ys)
  show ?case
  proof (cases "cmp x y \<le> 0")
    case True
    with Cons.prems show ?thesis by (auto intro: trans)
  next
    case False
    with total have "cmp y x \<le> 0" by blast
    with False Cons show ?thesis by (auto simp: set_js_insort)
  qed
qed

lemma sorted_js_sort:
  assumes total: "\<And>a b. cmp a b \<le> 0 \<or> cmp b a \<le> 0"
    and trans: "\<And>a b c. cmp a b \<le> 0 \<Longrightarrow> cmp b c \<le> 0 \<Longrightarrow> cmp a c \<le> 0"
  shows "sorted_wrt (\<lambda>a b. cmp a b \<le> 0) (js_sort cmp xs)"
proof (induction xs)
  case Nil
  then show ?case by (simp add: js_sort_def)
next
  case (Cons x xs)
  have "js_sort cmp (x # xs) = js_insort cmp x (js_sort cmp xs)"
    by (simp add: js_sort_def)
  with Cons show ?case
    using sorted_js_insort [of cmp, OF total trans] by simp
qed

text \<open>
  C10.  \<open>listOrdersByUser\<close> returns exactly the orders whose \<open>user_id\<close> is the given user
  id, each once, newest first: the result is a permutation of the matching order
  documents and is sorted by \<open>created_at\<close> descending.
\<close>

theorem listOrdersByUser_sorted:
  "mset (listOrdersByUser userId d) = mset (filter (\<lambda>(i, ord). o_user_id ord = userId) (orders d))
   \<and> sorted_wrt (\<lambda>a b. o_created_at (snd a) \<ge> o_created_at (snd b)) (listOrdersByUser userId d)"
proof
  show "mset (listOrdersByUser userId d) = mset (filter (\<lambda>(i, ord). o_user_id ord = userId) (orders d))"
    by (simp add: listOrdersByUser_def mset_js_sort)
next
  have "sorted_wrt (\<lambda>a b. o_created_at (snd b) - o_created_at (snd a) \<le> 0)
          (listOrdersByUser userId d)"
    unfolding listOrdersByUser_def
    by (rule sorted_js_sort) auto
  then show "sorted_wrt (\<lambda>a b. o_created_at (snd a) \<ge> o_created_at (snd b)) (listOrdersByUser userId d)"
    by simp
qed

theorem listOrdersByUser_sorted_witness:
  "map fst (listOrdersByUser 1 shop_orders) = [3, 1]
   \<and> sorted_wrt (\<lambda>a b. o_created_at (snd a) \<ge> o_created_at (snd b))
        (listOrdersByUser 1 shop_orders)"
  using listOrdersByUser_sorted [of 1 shop_orders]
  by (simp add: listOrdersByUser_def js_sort_def shop_orders_def order_of_def)

section \<open>Properties of product administration\<close>

lemma foldr_delete_rows:
  "foldr (\<lambda>(ref, c). AList.delete ref) rows al = filter (\<lambda>(k, c). k \<notin> fst ` set rows) al"
proof (induction rows)
  case Nil
  then show ?case by simp
next
  case (Cons r rows)
  obtain k c where r: "r = (k, c)" by (cases r)
  have "AList.delete k (filter (\<lambda>(k', c). k' \<notin> fst ` set rows) al)
        = filter (\<lambda>(k', c). k' \<notin> fst ` set (r # rows)) al"
    by (induction al) (auto simp: r)
  with Cons show ?case by (simp add: r)
qed

lemma deleteProduct_cart:
  "cart_items (deleteProduct productId d) =
     filter (\<lambda>(k, c). k \<notin> fst ` set (filter (\<lambda>(ref, c). c_product_id c = productId) (cart_items d)))
       (cart_items d)"
  by (simp add: deleteProduct_def Let_def foldr_delete_rows)

lemma deleteProduct_cart_wf:
  assumes "cart_wf d"
  shows "cart_items (deleteProduct productId d) =
     filter (\<lambda>(ref, c). c_product_id c \<noteq> productId) (cart_items d)"
proof -
  have "(k \<notin> fst ` set (filter (\<lambda>(ref, c). c_product_id c = productId) (cart_items d)))
            = (c_product_id c \<noteq> productId)" if kc: "(k, c) \<in> set (cart_items d)" for k c
  proof
    assume "k \<notin> fst ` set (filter (\<lambda>(ref, c). c_product_id c = productId) (cart_items d))"
    with kc show "c_product_id c \<noteq> productId" by force
  next
    assume ne: "c_product_id c \<noteq> productId"
    show "k \<notin> fst ` set (filter (\<lambda>(ref, c). c_product_id c = productId) (cart_items d))"
    proof
      assume "k \<in> fst ` set (filter (\<lambda>(ref, c). c_product_id c = productId) (cart_items d))"
      then obtain c' where c': "(k, c') \<in> set (cart_items d)" "c_product_id c' = productId"
        by auto
      from assms have "distinct (map fst (cart_items d))" by (simp add: cart_wf_def)
      from this kc c'(1) have "c = c'" by (rule eq_key_imp_eq_value)
      with ne c'(2) show False by simp
    qed
  qed
  then show ?thesis
    unfolding deleteProduct_cart by (intro filter_cong) auto
qed

text \<open>
  C9.  Neither \<open>updateProduct\<close> nor \<open>deleteProduct\<close> changes the orders: in any store, and so
  in the store that a checkout leaves, the order documents are the same afterwards.
  \<open>updateProduct\<close> leaves the cart as it is; \<open>deleteProduct\<close> removes the product document
  and the cart rows that reference the product, and on a well-formed cart nothing else.
\<close>

theorem product_edits_keep_orders:
  "orders (snd (updateProduct i pl d)) = orders d
   \<and> cart_items (snd (updateProduct i pl d)) = cart_items d
   \<and> orders (deleteProduct i d) = orders d
   \<and> products (deleteProduct i d) = AList.delete i (products d)
   \<and> counters (deleteProduct i d) = counters d
   \<and> list_all (\<lambda>(ref, c). c_product_id c \<noteq> i) (cart_items (deleteProduct i d))
   \<and> (cart_wf d \<longrightarrow>
        cart_items (deleteProduct i d) = filter (\<lambda>(ref, c). c_product_id c \<noteq> i) (cart_items d))
   \<and> orders (deleteProduct i (snd (createOrder pol uId sh now d))) =
       orders (snd (createOrder pol uId sh now d))
   \<and> orders (snd (updateProduct i pl (snd (createOrder pol uId sh now d)))) =
       orders (snd (createOrder pol uId sh now d))"
proof -
  have upd: "\<And>e. orders (snd (updateProduct i pl e)) = orders e \<and>
                  cart_items (snd (updateProduct i pl e)) = cart_items e"
    by (simp add: updateProduct_def Let_def split: option.splits)
  have del: "\<And>e. orders (deleteProduct i e) = orders e"
    by (simp add: deleteProduct_def Let_def)
  have rest: "products (deleteProduct i d) = AList.delete i (products d)
              \<and> counters (deleteProduct i d) = counters d"
    by (simp add: deleteProduct_def Let_def)
  have gone: "list_all (\<lambda>(ref, c). c_product_id c \<noteq> i) (cart_items (deleteProduct i d))"
    unfolding deleteProduct_cart by (force simp: list_all_iff image_iff)
  show ?thesis
    using upd del rest gone deleteProduct_cart_wf by simp
qed

theorem product_edits_keep_orders_witness:
  "cart_wf shop_orders
   \<and> orders (deleteProduct 7 shop_orders) = orders shop_orders
   \<and> cart_items (deleteProduct 7 shop_orders) = []
   \<and> orders (snd (updateProduct 7 new_price shop_orders)) = orders shop_orders"
  using product_edits_keep_orders [of 7 new_price shop_orders]
  by (simp add: cart_wf_def shop_orders_def)

section \<open>Properties of the checkout\<close>

lemma nextId_eval:
  "nextId pol key d =
     (Inr (case map_of (counters d) key of None \<Rightarrow> 1 | Some v \<Rightarrow> if v = 0 then 1 else v),
      d\<lparr>counters := AList.update key
            (js_add (case map_of (counters d) key of None \<Rightarrow> 1 | Some v \<Rightarrow> if v = 0 then 1 else v) 1)
            (counters d)\<rparr>)"
  by (simp add: nextId_def runTransaction_def tx_get_def tx_write_def Let_def)

lemma nextId_frame:
  "\<exists>i. fst (nextId pol key d) = Inr i"
  "products (snd (nextId pol key d)) = products d"
  "cart_items (snd (nextId pol key d)) = cart_items d"
  "orders (snd (nextId pol key d)) = orders d"
  by (simp_all add: nextId_eval)

lemma collect_ok:
  assumes "writes t = [] \<or> pol = ReadsAnywhere"
    and "list_all (\<lambda>(ref, c). line_ok (snapshot t) c) rows"
  shows "createOrder_collect pol t rows items = Inr (items @ cart_lines (snapshot t) rows)"
  using assms(2)
proof (induction rows arbitrary: items)
  case Nil
  then show ?case by (simp add: cart_lines_def)
next
  case (Cons r rows)
  obtain ref c where r: "r = (ref, c)" by (cases r)
  from Cons.prems obtain p where p: "map_of (products (snapshot t)) (c_product_id c) = Some p"
    and le: "c_quantity c \<le> p_stock p"
    by (auto simp: r line_ok_def split: option.splits)
  have get: "tx_get pol t (\<lambda>s. map_of (products s) (c_product_id c)) = Inr (Some p)"
    using assms(1) p by (auto simp: tx_get_def)
  from Cons.prems have rest: "list_all (\<lambda>(ref, c). line_ok (snapshot t) c) rows" by simp
  show ?case
    using le p by (simp add: r get Cons.IH [OF rest] cart_lines_def)
qed

lemma collect_bad:
  assumes "writes t = [] \<or> pol = ReadsAnywhere"
    and "find (\<lambda>(ref, c). \<not> line_ok (snapshot t) c) rows = Some (ref, c)"
  shows "createOrder_collect pol t rows items = Inl (order_error (snapshot t) c)"
  using assms(2)
proof (induction rows arbitrary: items)
  case Nil
  then show ?case by simp
next
  case (Cons r rows)
  obtain ref' c' where r: "r = (ref', c')" by (cases r)
  have get: "tx_get pol t (\<lambda>s. map_of (products s) (c_product_id c')) =
             Inr (map_of (products (snapshot t)) (c_product_id c'))"
    using assms(1) by (auto simp: tx_get_def)
  show ?case
  proof (cases "line_ok (snapshot t) c'")
    case True
    with Cons.prems have "find (\<lambda>(ref, c). \<not> line_ok (snapshot t) c) rows = Some (ref, c)"
      by (simp add: r)
    with True show ?thesis
      by (auto simp: r get line_ok_def Cons.IH split: option.splits)
  next
    case False
    with Cons.prems have "c = c'" by (simp add: r)
    with False show ?thesis
      by (auto simp: r get line_ok_def order_error_def split: option.splits)
  qed
qed

lemma collect_Inr:
  assumes "writes t = [] \<or> pol = ReadsAnywhere"
    and "createOrder_collect pol t rows items = Inr its"
  shows "list_all (\<lambda>(ref, c). line_ok (snapshot t) c) rows"
proof (rule ccontr)
  assume "\<not> list_all (\<lambda>(ref, c). line_ok (snapshot t) c) rows"
  then obtain r where "find (\<lambda>(ref, c). \<not> line_ok (snapshot t) c) rows = Some r"
    by (cases "find (\<lambda>(ref, c). \<not> line_ok (snapshot t) c) rows")
       (auto simp: find_None_iff list_all_iff)
  then have "createOrder_collect pol t rows items = Inl (order_error (snapshot t) (snd r))"
    using collect_bad [OF assms(1), of rows "fst r" "snd r" items] by simp
  with assms(2) show False by simp
qed

lemma settle_Inr:
  "createOrder_settle pol rows t = Inr t' \<Longrightarrow>
     t' = t\<lparr>writes := writes t @ settle_writes (snapshot t) rows\<rparr>"
proof (induction rows arbitrary: t)
  case Nil
  then show ?case by (simp add: settle_writes_def)
next
  case (Cons r rows)
  obtain ref c where r: "r = (ref, c)" by (cases r)
  from Cons.prems obtain p where
    get: "tx_get pol t (\<lambda>s. map_of (products s) (c_product_id c)) = Inr (Some p)"
    and rest: "createOrder_settle pol rows
       (tx_write (tx_write t (UpdateStock (c_product_id c) (js_sub (p_stock p) (c_quantity c))))
          (DeleteCart ref)) = Inr t'"
    by (auto simp: r split: sum.splits option.splits)
  from get have p: "map_of (products (snapshot t)) (c_product_id c) = Some p"
    by (auto simp: tx_get_def split: if_splits)
  from Cons.IH [OF rest] p show ?case
    by (simp add: r tx_write_def settle_writes_def)
qed

lemma settle_ReadsBeforeWrites:
  "writes t \<noteq> [] \<Longrightarrow> rows \<noteq> [] \<Longrightarrow>
   createOrder_settle ReadsBeforeWrites rows t = Inl READ_AFTER_WRITE_ERROR_MSG"
  by (cases rows) (auto simp: tx_get_def)

lemma settle_ReadsAnywhere:
  "list_all (\<lambda>(ref, c). map_of (products (snapshot t)) (c_product_id c) \<noteq> None) rows \<Longrightarrow>
   createOrder_settle ReadsAnywhere rows t =
     Inr (t\<lparr>writes := writes t @ settle_writes (snapshot t) rows\<rparr>)"
proof (induction rows arbitrary: t)
  case Nil
  then show ?case by (simp add: settle_writes_def)
next
  case (Cons r rows)
  obtain ref c where r: "r = (ref, c)" by (cases r)
  from Cons.prems obtain p where p: "map_of (products (snapshot t)) (c_product_id c) = Some p"
    by (auto simp: r)
  let ?t1 = "tx_write (tx_write t (UpdateStock (c_product_id c) (js_sub (p_stock p) (c_quantity c))))
               (DeleteCart ref)"
  have snap: "snapshot ?t1 = snapshot t" by (simp add: tx_write_def)
  from Cons.prems have
    "list_all (\<lambda>(ref, c). map_of (products (snapshot ?t1)) (c_product_id c) \<noteq> None) rows"
    by (simp add: r snap)
  from Cons.IH [OF this] p show ?case
    by (simp add: r tx_get_def tx_write_def settle_writes_def)
qed

lemma commit_append:
  "commit (ws @ vs) e = (case commit ws e of Inl m \<Rightarrow> Inl m | Inr e' \<Rightarrow> commit vs e')"
  by (induction ws arbitrary: e) (auto split: sum.splits)

lemma settle_writes_Cons:
  "map_of (products sn) (c_product_id c) = Some p \<Longrightarrow>
   settle_writes sn ((ref, c) # rows) =
     UpdateStock (c_product_id c) (js_sub (p_stock p) (c_quantity c)) # DeleteCart ref # settle_writes sn rows"
  by (simp add: settle_writes_def)

lemma commit_settle_Cons:
  assumes "map_of (products sn) (c_product_id c) = Some p"
    and "map_of (products e) (c_product_id c) = Some q"
  shows "commit (settle_writes sn ((ref, c) # rows)) e =
     commit (settle_writes sn rows)
       (e\<lparr>products := AList.update (c_product_id c) (q\<lparr>p_stock := js_sub (p_stock p) (c_quantity c)\<rparr>)
                         (products e),
          cart_items := AList.delete ref (cart_items e)\<rparr>)"
  using assms by (simp add: settle_writes_Cons)

lemma filter_delete_rows:
  "filter (\<lambda>(k, c). k \<notin> fst ` set rows) (AList.delete ref al)
   = filter (\<lambda>(k, c). k \<notin> fst ` set ((ref, c0) # rows)) al"
  by (induction al) auto

lemma dom_update_present:
  "map_of al k = Some v \<Longrightarrow> dom (map_of (AList.update k w al)) = dom (map_of al)"
  by (auto simp: update_conv')

text \<open>The queued stock updates and row deletions commit, and leave orders and counters alone.\<close>

lemma commit_settle_frame:
  assumes "list_all (\<lambda>(ref, c). line_ok sn c) rows"
    and "dom (map_of (products e)) = dom (map_of (products sn))"
  shows "\<exists>e'. commit (settle_writes sn rows) e = Inr e'
           \<and> orders e' = orders e \<and> counters e' = counters e
           \<and> dom (map_of (products e')) = dom (map_of (products e))
           \<and> cart_items e' = filter (\<lambda>(k, c). k \<notin> fst ` set rows) (cart_items e)"
  using assms
proof (induction rows arbitrary: e)
  case Nil
  then show ?case by (simp add: settle_writes_def)
next
  case (Cons r rows)
  obtain ref c where r: "r = (ref, c)" by (cases r)
  from Cons.prems(1) obtain p where p: "map_of (products sn) (c_product_id c) = Some p"
    by (auto simp: r line_ok_def split: option.splits)
  with Cons.prems(2) obtain q where q: "map_of (products e) (c_product_id c) = Some q"
    by (metis domD domI)
  let ?e1 = "e\<lparr>products := AList.update (c_product_id c) (q\<lparr>p_stock := js_sub (p_stock p) (c_quantity c)\<rparr>)
                              (products e),
               cart_items := AList.delete ref (cart_items e)\<rparr>"
  have dom1: "dom (map_of (products ?e1)) = dom (map_of (products e))"
    using q by (simp add: dom_update_present)
  from Cons.prems(1) have rest: "list_all (\<lambda>(ref, c). line_ok sn c) rows" by simp
  from Cons.IH [OF rest, of ?e1] dom1 Cons.prems(2)
  obtain e' where e': "commit (settle_writes sn rows) ?e1 = Inr e'"
    "orders e' = orders ?e1" "counters e' = counters ?e1"
    "dom (map_of (products e')) = dom (map_of (products ?e1))"
    "cart_items e' = filter (\<lambda>(k, c). k \<notin> fst ` set rows) (cart_items ?e1)"
    by auto
  have "filter (\<lambda>(k, c). k \<notin> fst ` set rows) (AList.delete ref (cart_items e))
        = filter (\<lambda>(k, c). k \<notin> fst ` set (r # rows)) (cart_items e)"
    unfolding r by (rule filter_delete_rows)
  with e' dom1 show ?case
    by (simp add: r commit_settle_Cons [OF p q])
qed

text \<open>Stock that was non-negative stays so, since every row was checked against it.\<close>

lemma commit_settle_nonneg:
  assumes "list_all (\<lambda>(ref, c). line_ok sn c) rows"
    and "stock_nonneg e"
    and "commit (settle_writes sn rows) e = Inr e'"
  shows "stock_nonneg e'"
  using assms
proof (induction rows arbitrary: e)
  case Nil
  then show ?case by (simp add: settle_writes_def)
next
  case (Cons r rows)
  obtain ref c where r: "r = (ref, c)" by (cases r)
  from Cons.prems(1) obtain p where p: "map_of (products sn) (c_product_id c) = Some p"
    and le: "c_quantity c \<le> p_stock p"
    by (auto simp: r line_ok_def split: option.splits)
  from Cons.prems(3) obtain q where q: "map_of (products e) (c_product_id c) = Some q"
    by (auto simp: r settle_writes_Cons [OF p] split: option.splits)
  let ?e1 = "e\<lparr>products := AList.update (c_product_id c) (q\<lparr>p_stock := js_sub (p_stock p) (c_quantity c)\<rparr>)
                              (products e),
               cart_items := AList.delete ref (cart_items e)\<rparr>"
  have "stock_nonneg ?e1"
    using Cons.prems(2) le by (simp add: stock_nonneg_def list_all_update js_sub_nonneg)
  moreover from Cons.prems(3) have "commit (settle_writes sn rows) ?e1 = Inr e'"
    by (simp add: r commit_settle_Cons [OF p q])
  moreover from Cons.prems(1) have "list_all (\<lambda>(ref, c). line_ok sn c) rows" by simp
  ultimately show ?case using Cons.IH by blast
qed

text \<open>Products that no row names are untouched; a product named by one row loses that row's quantity.\<close>

lemma commit_settle_other:
  assumes "commit (settle_writes sn rows) e = Inr e'"
    and "i \<notin> (c_product_id \<circ> snd) ` set rows"
  shows "map_of (products e') i = map_of (products e) i"
  using assms
proof (induction rows arbitrary: e)
  case Nil
  then show ?case by (simp add: settle_writes_def)
next
  case (Cons r rows)
  obtain ref c where r: "r = (ref, c)" by (cases r)
  show ?case
  proof (cases "map_of (products sn) (c_product_id c)")
    case None
    then have "settle_writes sn (r # rows) = settle_writes sn rows"
      by (simp add: r settle_writes_def)
    with Cons show ?thesis by simp
  next
    case (Some p)
    from Cons.prems(1) obtain q where q: "map_of (products e) (c_product_id c) = Some q"
      by (auto simp: r settle_writes_Cons [OF Some] split: option.splits)
    let ?e1 = "e\<lparr>products := AList.update (c_product_id c) (q\<lparr>p_stock := js_sub (p_stock p) (c_quantity c)\<rparr>)
                                (products e),
                 cart_items := AList.delete ref (cart_items e)\<rparr>"
    from Cons.prems(1) have "commit (settle_writes sn rows) ?e1 = Inr e'"
      by (simp add: r commit_settle_Cons [OF Some q])
    with Cons.IH [of ?e1] Cons.prems(2)
    have "map_of (products e') i = map_of (products ?e1) i" by simp
    with Cons.prems(2) show ?thesis by (simp add: r update_conv')
  qed
qed

lemma commit_settle_stock:
  assumes "commit (settle_writes sn rows) e = Inr e'"
    and "distinct (map (c_product_id \<circ> snd) rows)"
    and "(ref, c) \<in> set rows"
    and "map_of (products sn) (c_product_id c) = Some p"
    and "map_of (products e) (c_product_id c) = Some q"
  shows "map_of (products e') (c_product_id c) = Some (q\<lparr>p_stock := js_sub (p_stock p) (c_quantity c)\<rparr>)"
  using assms(1,2,3,5)
proof (induction rows arbitrary: e)
  case Nil
  then show ?case by simp
next
  case (Cons r rows)
  obtain ref' c' where r: "r = (ref', c')" by (cases r)
  show ?case
  proof (cases "(ref, c) = (ref', c')")
    case True
    let ?e1 = "e\<lparr>products := AList.update (c_product_id c) (q\<lparr>p_stock := js_sub (p_stock p) (c_quantity c)\<rparr>)
                                (products e),
                 cart_items := AList.delete ref (cart_items e)\<rparr>"
    from Cons.prems(1) True have run: "commit (settle_writes sn rows) ?e1 = Inr e'"
      using commit_settle_Cons [OF assms(4) Cons.prems(4), of ref rows] by (simp add: r)
    from Cons.prems(2) True have "c_product_id c \<notin> (c_product_id \<circ> snd) ` set rows"
      by (simp add: r)
    from commit_settle_other [OF run this] show ?thesis by (simp add: update_conv')
  next
    case False
    with Cons.prems(3) have mem: "(ref, c) \<in> set rows" by (auto simp: r)
    with Cons.prems(2) have ne: "c_product_id c' \<noteq> c_product_id c"
      by (force simp: r)
    show ?thesis
    proof (cases "map_of (products sn) (c_product_id c')")
      case None
      then have "settle_writes sn (r # rows) = settle_writes sn rows"
        by (simp add: r settle_writes_def)
      with Cons mem show ?thesis by simp
    next
      case (Some p')
      from Cons.prems(1) obtain q' where q': "map_of (products e) (c_product_id c') = Some q'"
        by (auto simp: r settle_writes_Cons [OF Some] split: option.splits)
      let ?e1 = "e\<lparr>products := AList.update (c_product_id c')
                                  (q'\<lparr>p_stock := js_sub (p_stock p') (c_quantity c')\<rparr>) (products e),
                   cart_items := AList.delete ref' (cart_items e)\<rparr>"
      from Cons.prems(1) have run: "commit (settle_writes sn rows) ?e1 = Inr e'"
        by (simp add: r commit_settle_Cons [OF Some q'])
      have "map_of (products ?e1) (c_product_id c) = Some q"
        using Cons.prems(4) ne by (simp add: update_conv')
      with Cons.IH [OF run] Cons.prems(2) mem show ?thesis by simp
    qed
  qed
qed

lemma nextId_orders: "nextId pol (js ''orders'') d = (Inr (next_order_id d), counted d)"
  by (simp add: nextId_eval next_order_id_def counted_def)

lemma counted_simps [simp]:
  "products (counted d) = products d"
  "cart_items (counted d) = cart_items d"
  "orders (counted d) = orders d"
  "line_ok (counted d) = line_ok d"
  "cart_lines (counted d) = cart_lines d"
  "order_error (counted d) = order_error d"
  "settle_writes (counted d) = settle_writes d"
  by (simp_all add: counted_def line_ok_def cart_lines_def order_error_def settle_writes_def
      fun_eq_iff)

lemma createOrder_nonempty:
  assumes "cart_of d uId \<noteq> []"
  shows "createOrder pol uId sh now d =
    (case runTransaction (\<lambda>t.
        case createOrder_collect pol t (cart_of d uId) [] of
          Inl e \<Rightarrow> Inl e
        | Inr items \<Rightarrow>
            (case createOrder_settle pol (cart_of d uId)
                    (tx_write t (SetOrder (next_order_id d) (new_order uId sh now items))) of
               Inl e \<Rightarrow> Inl e
             | Inr t2 \<Rightarrow> Inr ((), t2))) (counted d)
     of (Inl e, d2) \<Rightarrow> (Fail (if e = [] then js ''Order failed.'' else e), d2)
      | (Inr u, d2) \<Rightarrow>
          (Ok (docToObject (next_order_id d) (map_of (orders d2) (next_order_id d))), d2))"
  unfolding createOrder_def Let_def new_order_def cart_of_def [symmetric]
  using assms by (simp add: nextId_orders)

lemma createOrder_empty:
  "cart_of d uId = [] \<Longrightarrow> createOrder pol uId sh now d = (Fail (js ''Your cart is empty.''), d)"
  unfolding createOrder_def Let_def cart_of_def [symmetric] by simp

lemma createOrder_failure_frame:
  assumes "\<not> is_ok (fst (createOrder pol uId sh now d))"
  shows "products (snd (createOrder pol uId sh now d)) = products d
       \<and> cart_items (snd (createOrder pol uId sh now d)) = cart_items d
       \<and> orders (snd (createOrder pol uId sh now d)) = orders d"
proof (cases "cart_of d uId = []")
  case True
  then show ?thesis by (simp add: createOrder_empty)
next
  case False
  from assms show ?thesis
    unfolding createOrder_nonempty [OF False] runTransaction_def
    by (auto split: sum.splits prod.splits)
qed

lemma order_error_nonempty: "order_error d c \<noteq> []"
  by (simp add: order_error_def js_def split: option.splits)

lemma createOrder_bad_line:
  assumes "find (\<lambda>(ref, c). \<not> line_ok d c) (cart_of d uId) = Some (ref, c)"
  shows "fst (createOrder pol uId sh now d) = Fail (order_error d c)"
proof -
  from assms have ne: "cart_of d uId \<noteq> []" by auto
  have "createOrder_collect pol \<lparr>snapshot = counted d, writes = []\<rparr> (cart_of d uId) []
        = Inl (order_error (snapshot \<lparr>snapshot = counted d, writes = []\<rparr>) c)"
    by (rule collect_bad) (use assms in simp_all)
  then show ?thesis
    by (simp add: createOrder_nonempty [OF ne] runTransaction_def order_error_nonempty)
qed

lemma createOrder_ReadsBeforeWrites:
  assumes ne: "cart_of d uId \<noteq> []"
    and ok: "list_all (\<lambda>(ref, c). line_ok d c) (cart_of d uId)"
  shows "createOrder ReadsBeforeWrites uId sh now d = (Fail READ_AFTER_WRITE_ERROR_MSG, counted d)"
proof -
  let ?t = "\<lparr>snapshot = counted d, writes = []\<rparr>"
  have "createOrder_collect ReadsBeforeWrites ?t (cart_of d uId) []
        = Inr ([] @ cart_lines (snapshot ?t) (cart_of d uId))"
    by (rule collect_ok) (use ok in simp_all)
  moreover have "createOrder_settle ReadsBeforeWrites (cart_of d uId)
       (tx_write ?t (SetOrder (next_order_id d)
          (new_order uId sh now (cart_lines d (cart_of d uId))))) = Inl READ_AFTER_WRITE_ERROR_MSG"
    by (rule settle_ReadsBeforeWrites) (use ne in \<open>simp_all add: tx_write_def\<close>)
  ultimately show ?thesis
    by (simp add: createOrder_nonempty [OF ne] runTransaction_def READ_AFTER_WRITE_ERROR_MSG_def
        js_def)
qed

lemma foldl_total:
  assumes "\<bar>a\<bar> + (\<Sum>i\<leftarrow>items. \<bar>i_price_at_purchase i * i_quantity i\<bar>) \<le> 2 ^ 53"
  shows "foldl (\<lambda>sum i. js_add sum (js_mul (i_price_at_purchase i) (i_quantity i))) a items
         = a + (\<Sum>i\<leftarrow>items. i_price_at_purchase i * i_quantity i)"
  using assms
proof (induction items arbitrary: a)
  case Nil
  then show ?case by simp
next
  case (Cons i items)
  let ?t = "i_price_at_purchase i * i_quantity i"
  have nonneg: "0 \<le> (\<Sum>i\<leftarrow>items. \<bar>i_price_at_purchase i * i_quantity i\<bar>)"
    by (rule sum_list_nonneg) auto
  from Cons.prems nonneg have t: "\<bar>?t\<bar> \<le> 2 ^ 53" and at: "\<bar>a + ?t\<bar> \<le> 2 ^ 53"
    by simp_all
  have step: "js_add a (js_mul (i_price_at_purchase i) (i_quantity i)) = a + ?t"
    using t at by (simp add: js_mul_exact js_add_exact)
  from Cons.prems have "\<bar>a + ?t\<bar> + (\<Sum>i\<leftarrow>items. \<bar>i_price_at_purchase i * i_quantity i\<bar>) \<le> 2 ^ 53"
    by simp
  from Cons.IH [OF this] show ?case by (simp add: step)
qed

text \<open>
  The total of an order is the sum over the rows of quantity times current price, as long
  as the amounts stay within the range where doubles are exact.
\<close>

lemma order_total_cart_lines:
  assumes "list_all (\<lambda>(ref, c). line_ok d c) rows"
    and "(\<Sum>(ref, c)\<leftarrow>rows. \<bar>c_quantity c * line_price d c\<bar>) \<le> 2 ^ 53"
  shows "order_total (cart_lines d rows) = (\<Sum>(ref, c)\<leftarrow>rows. c_quantity c * line_price d c)"
proof -
  have items: "map (\<lambda>i. i_price_at_purchase i * i_quantity i) (cart_lines d rows)
               = map (\<lambda>(ref, c). c_quantity c * line_price d c) rows"
    using assms(1)
  proof (induction rows)
    case Nil
    then show ?case by (simp add: cart_lines_def)
  next
    case (Cons r rows)
    then show ?case
      by (cases r) (auto simp: cart_lines_def line_ok_def line_price_def split: option.splits)
  qed
  have abs_items: "map (\<lambda>i. \<bar>i_price_at_purchase i * i_quantity i\<bar>) (cart_lines d rows)
               = map (\<lambda>(ref, c). \<bar>c_quantity c * line_price d c\<bar>) rows"
  proof -
    have "map abs (map (\<lambda>i. i_price_at_purchase i * i_quantity i) (cart_lines d rows))
          = map abs (map (\<lambda>(ref, c). c_quantity c * line_price d c) rows)"
      by (simp only: items)
    then show ?thesis by (simp add: comp_def split_def)
  qed
  have "order_total (cart_lines d rows)
        = 0 + (\<Sum>i\<leftarrow>cart_lines d rows. i_price_at_purchase i * i_quantity i)"
    unfolding order_total_def using assms(2) by (intro foldl_total) (simp add: abs_items)
  then show ?thesis by (simp add: items)
qed

lemma cart_of_distinct_products:
  assumes "cart_wf d"
  shows "distinct (map (c_product_id \<circ> snd) (cart_of d uId))"
proof -
  from assms have "distinct (map fst (cart_of d uId))"
    by (simp add: cart_wf_def cart_of_def distinct_map_filter)
  moreover from assms have "map fst (cart_of d uId) = map (Pair uId) (map (c_product_id \<circ> snd) (cart_of d uId))"
    by (auto simp: cart_wf_def cart_of_def list_all_iff)
  ultimately have "distinct (map (Pair uId) (map (c_product_id \<circ> snd) (cart_of d uId)))"
    by simp
  then show ?thesis unfolding distinct_map [of "Pair uId"] by simp
qed

lemma cart_of_after_delete:
  "cart_of (e\<lparr>cart_items := filter (\<lambda>(k, c). k \<notin> fst ` set (cart_of d uId)) (cart_items d)\<rparr>) uId = []"
  by (force simp: cart_of_def filter_empty_conv image_iff)

text \<open>
  On a store that answers a read after a queued write, \<open>createOrder\<close> does what the
  checkout is meant to do.
\<close>

lemma createOrder_ReadsAnywhere:
  assumes ne: "cart_of d uId \<noteq> []"
    and ok: "list_all (\<lambda>(ref, c). line_ok d c) (cart_of d uId)"
  shows "\<exists>d'. createOrder ReadsAnywhere uId sh now d =
            (Ok (Some (next_order_id d, new_order uId sh now (cart_lines d (cart_of d uId)))), d')
       \<and> map_of (orders d') (next_order_id d) =
            Some (new_order uId sh now (cart_lines d (cart_of d uId)))
       \<and> cart_of d' uId = []
       \<and> (\<forall>i. i \<notin> (c_product_id \<circ> snd) ` set (cart_of d uId) \<longrightarrow>
             map_of (products d') i = map_of (products d) i)
       \<and> (cart_wf d \<longrightarrow> (\<forall>(ref, c) \<in> set (cart_of d uId). \<forall>p.
             map_of (products d) (c_product_id c) = Some p \<longrightarrow>
             map_of (products d') (c_product_id c) = Some (p\<lparr>p_stock := js_sub (p_stock p) (c_quantity c)\<rparr>)))"
proof -
  let ?rows = "cart_of d uId"
  let ?oid = "next_order_id d"
  let ?ord = "new_order uId sh now (cart_lines d ?rows)"
  let ?t = "\<lparr>snapshot = counted d, writes = []\<rparr>"
  let ?e = "counted d\<lparr>orders := AList.update ?oid ?ord (orders (counted d))\<rparr>"
  have collect: "createOrder_collect ReadsAnywhere ?t ?rows [] = Inr (cart_lines d ?rows)"
    using collect_ok [of ?t ReadsAnywhere ?rows "[]"] ok by simp
  have "list_all (\<lambda>(ref, c). map_of (products (snapshot (tx_write ?t (SetOrder ?oid ?ord))))
           (c_product_id c) \<noteq> None) ?rows"
    using ok by (auto simp: list_all_iff line_ok_def tx_write_def split: option.splits)
  from settle_ReadsAnywhere [OF this]
  have settle: "createOrder_settle ReadsAnywhere ?rows (tx_write ?t (SetOrder ?oid ?ord)) =
      Inr \<lparr>snapshot = counted d, writes = SetOrder ?oid ?ord # settle_writes d ?rows\<rparr>"
    by (simp add: tx_write_def)
  have "\<exists>e'. commit (settle_writes d ?rows) ?e = Inr e'
           \<and> orders e' = orders ?e \<and> counters e' = counters ?e
           \<and> dom (map_of (products e')) = dom (map_of (products ?e))
           \<and> cart_items e' = filter (\<lambda>(k, c). k \<notin> fst ` set ?rows) (cart_items ?e)"
    by (rule commit_settle_frame) (use ok in simp_all)
  then obtain d' where d': "commit (settle_writes d ?rows) ?e = Inr d'"
    "orders d' = orders ?e" "cart_items d' = filter (\<lambda>(k, c). k \<notin> fst ` set ?rows) (cart_items ?e)"
    by blast
  have run: "createOrder ReadsAnywhere uId sh now d = (Ok (Some (?oid, ?ord)), d')"
    using d'(1,2)
    by (simp add: createOrder_nonempty [OF ne] runTransaction_def collect settle docToObject_def
        update_conv')
  have stored: "map_of (orders d') ?oid = Some ?ord"
    using d'(2) by (simp add: update_conv')
  have emptied: "cart_of d' uId = []"
  proof -
    have "cart_of d' uId = cart_of (d'\<lparr>cart_items := filter (\<lambda>(k, c). k \<notin> fst ` set ?rows) (cart_items d)\<rparr>) uId"
      using d'(3) by (simp add: cart_of_def)
    then show ?thesis by (simp only: cart_of_after_delete)
  qed
  have others: "map_of (products d') i = map_of (products d) i"
    if "i \<notin> (c_product_id \<circ> snd) ` set ?rows" for i
    using commit_settle_other [OF d'(1) that] by simp
  have stock: "map_of (products d') (c_product_id c) = Some (p\<lparr>p_stock := js_sub (p_stock p) (c_quantity c)\<rparr>)"
    if "cart_wf d" "(ref, c) \<in> set ?rows" "map_of (products d) (c_product_id c) = Some p" for ref c p
    using commit_settle_stock [OF d'(1) cart_of_distinct_products [OF that(1)] that(2), of p p] that(3)
    by simp
  show ?thesis
    using run stored emptied others stock by blast
qed

text \<open>
  C1.  A checkout of a non-empty cart whose rows are all within stock should commit the
  order, empty the cart and take the quantities off the stock.  The callback of
  \<open>createOrder\<close> queues the order document and then reads every product again; under
  the discipline of the store that \<^verbatim>\<open>db.js\<close> is written against that read throws
  (\<open>createOrder_ReadsBeforeWrites\<close>, for every such cart).  At the end-to-end example (one
  row, quantity 2, price 100) the result is a failure carrying the store's message, and
  nothing but the order counter has changed: the row is still in the cart, the stock is
  still 5 and there is no order.
\<close>

theorem createOrder_end_to_end_fails:
  "createOrder ReadsBeforeWrites 1 ship0 5000 shop_checkout =
     (Fail READ_AFTER_WRITE_ERROR_MSG, shop_checkout\<lparr>counters := [(js ''orders'', 2)]\<rparr>)"
proof -
  have "cart_of shop_checkout 1 \<noteq> []"
    by (simp add: cart_of_def shop_checkout_def)
  moreover have "list_all (\<lambda>(ref, c). line_ok shop_checkout c) (cart_of shop_checkout 1)"
    by (simp add: cart_of_def shop_checkout_def line_ok_def phoneA_def)
  ultimately have "createOrder ReadsBeforeWrites 1 ship0 5000 shop_checkout =
     (Fail READ_AFTER_WRITE_ERROR_MSG, counted shop_checkout)"
    by (rule createOrder_ReadsBeforeWrites)
  then show ?thesis
    by (simp add: counted_def next_order_id_def shop_checkout_def js_add_exact)
qed

lemma createOrder_end_to_end_ReadsAnywhere:
  "fst (createOrder ReadsAnywhere 1 ship0 5000 shop_checkout) =
     Ok (Some (1, \<lparr>o_user_id = 1, o_total_amount = 200, o_status = js ''Pending'',
                  o_shipping_name = js ''Ann'', o_shipping_phone = js ''555'',
                  o_shipping_address = js ''1 Main St'', o_created_at = 5000,
                  o_items = [\<lparr>i_product_id = 7, i_name = js ''Phone A'', i_quantity = 2,
                              i_price_at_purchase = 100\<rparr>]\<rparr>))
   \<and> cart_items (snd (createOrder ReadsAnywhere 1 ship0 5000 shop_checkout)) = []
   \<and> map (p_stock \<circ> snd) (products (snd (createOrder ReadsAnywhere 1 ship0 5000 shop_checkout))) = [3]"
  unfolding createOrder_def Let_def
  by (simp add: nextId_eval runTransaction_def tx_get_def tx_write_def shop_checkout_def
      phoneA_def ship0_def order_total_def docToObject_def js_add_exact js_sub_exact js_mul_exact)

text \<open>
  C2.  When \<open>createOrder\<close> does not succeed, the products, the cart rows and the orders
  are what they were.  It never leaves by an exception: the result is a failure object
  with a message.  An empty cart is reported as such; otherwise the first row that does
  not pass the check decides the message: "Product not found in cart." when its product
  is missing, and "Insufficient stock for NAME." with the product's name when its
  quantity exceeds the stock.
\<close>

theorem createOrder_failure_atomic:
  "(\<not> is_ok (fst (createOrder pol uId sh now d)) \<longrightarrow>
       products (snd (createOrder pol uId sh now d)) = products d
     \<and> cart_items (snd (createOrder pol uId sh now d)) = cart_items d
     \<and> orders (snd (createOrder pol uId sh now d)) = orders d)
   \<and> (\<forall>m. fst (createOrder pol uId sh now d) \<noteq> Thrown m)
   \<and> (cart_of d uId = [] \<longrightarrow>
        createOrder pol uId sh now d = (Fail (js ''Your cart is empty.''), d))
   \<and> (\<forall>ref c. find (\<lambda>(ref, c). \<not> line_ok d c) (cart_of d uId) = Some (ref, c) \<longrightarrow>
        (map_of (products d) (c_product_id c) = None \<longrightarrow>
           fst (createOrder pol uId sh now d) = Fail (js ''Product not found in cart.''))
      \<and> (\<forall>p. map_of (products d) (c_product_id c) = Some p \<longrightarrow>
           p_stock p < c_quantity c
         \<and> fst (createOrder pol uId sh now d) = Fail (js ''Insufficient stock for '' @ p_name p @ js ''.'')))"
proof -
  have no_throw: "fst (createOrder pol uId sh now d) \<noteq> Thrown m" for m
  proof (cases "cart_of d uId = []")
    case True
    then show ?thesis by (simp add: createOrder_empty)
  next
    case False
    show ?thesis
      unfolding createOrder_nonempty [OF False] by (auto split: sum.splits prod.splits)
  qed
  have bad: "(map_of (products d) (c_product_id c) = None \<longrightarrow>
           fst (createOrder pol uId sh now d) = Fail (js ''Product not found in cart.''))
      \<and> (\<forall>p. map_of (products d) (c_product_id c) = Some p \<longrightarrow>
           p_stock p < c_quantity c
         \<and> fst (createOrder pol uId sh now d) = Fail (js ''Insufficient stock for '' @ p_name p @ js ''.''))"
    if f: "find (\<lambda>(ref, c). \<not> line_ok d c) (cart_of d uId) = Some (ref, c)" for ref c
  proof -
    from f have "\<not> line_ok d c" by (auto simp: find_Some_iff)
    with createOrder_bad_line [OF f, of pol sh now] show ?thesis
      by (auto simp: order_error_def line_ok_def)
  qed
  show ?thesis
    using createOrder_failure_frame [of pol uId sh now d] no_throw bad
    by (simp add: createOrder_empty)
qed

theorem createOrder_failure_atomic_witness:
  "find (\<lambda>(ref, c). \<not> line_ok shop_two_lines c) (cart_of shop_two_lines 1) =
     Some ((1, 8), \<lparr>c_user_id = 1, c_product_id = 8, c_quantity = 9\<rparr>)
   \<and> map_of (products shop_two_lines) 8 = Some phoneB
   \<and> fst (createOrder ReadsAnywhere 1 ship0 5000 shop_two_lines) =
       Fail (js ''Insufficient stock for Phone B.'')
   \<and> \<not> is_ok (fst (createOrder ReadsAnywhere 1 ship0 5000 shop_two_lines))
   \<and> products (snd (createOrder ReadsAnywhere 1 ship0 5000 shop_two_lines)) = products shop_two_lines
   \<and> cart_items (snd (createOrder ReadsAnywhere 1 ship0 5000 shop_two_lines)) = cart_items shop_two_lines
   \<and> orders (snd (createOrder ReadsAnywhere 1 ship0 5000 shop_two_lines)) = []"
proof -
  have f: "find (\<lambda>(ref, c). \<not> line_ok shop_two_lines c) (cart_of shop_two_lines 1) =
     Some ((1, 8), \<lparr>c_user_id = 1, c_product_id = 8, c_quantity = 9\<rparr>)"
    by (simp add: shop_two_lines_def cart_of_def line_ok_def phoneA_def phoneB_def)
  have p: "map_of (products shop_two_lines) 8 = Some phoneB"
    by (simp add: shop_two_lines_def)
  have o: "orders shop_two_lines = []"
    by (simp add: shop_two_lines_def)
  have n: "js ''Insufficient stock for '' @ p_name phoneB @ js ''.'' = js ''Insufficient stock for Phone B.''"
    by (simp add: js_def phoneB_def)
  from createOrder_failure_atomic [of ReadsAnywhere 1 ship0 5000 shop_two_lines] f p o n
  show ?thesis by simp
qed

lemma stock_nonneg_counted [simp]: "stock_nonneg (counted d) = stock_nonneg d"
  by (simp add: stock_nonneg_def)

lemma createOrder_nonneg:
  assumes "stock_nonneg d"
  shows "stock_nonneg (snd (createOrder pol uId sh now d))"
proof (cases "is_ok (fst (createOrder pol uId sh now d))")
  case False
  then have "products (snd (createOrder pol uId sh now d)) = products d"
    by (simp add: createOrder_failure_frame)
  with assms show ?thesis by (simp add: stock_nonneg_def)
next
  case True
  then have ne: "cart_of d uId \<noteq> []"
    by (auto simp: createOrder_empty)
  let ?t = "\<lparr>snapshot = counted d, writes = []\<rparr>"
  let ?rows = "cart_of d uId"
  from True obtain items where
    collect: "createOrder_collect pol ?t ?rows [] = Inr items"
    unfolding createOrder_nonempty [OF ne] runTransaction_def
    by (auto split: sum.splits prod.splits)
  let ?t1 = "tx_write ?t (SetOrder (next_order_id d) (new_order uId sh now items))"
  from True collect obtain t2 where
    settle: "createOrder_settle pol ?rows ?t1 = Inr t2"
    unfolding createOrder_nonempty [OF ne] runTransaction_def
    by (auto split: sum.splits prod.splits)
  from True collect settle obtain d2 where
    commit: "commit (writes t2) (counted d) = Inr d2"
    and res: "snd (createOrder pol uId sh now d) = d2"
    unfolding createOrder_nonempty [OF ne] runTransaction_def
    by (auto split: sum.splits prod.splits)
  have ok: "list_all (\<lambda>(ref, c). line_ok d c) ?rows"
    using collect_Inr [OF _ collect] by simp
  have "writes t2 = SetOrder (next_order_id d) (new_order uId sh now items) # settle_writes d ?rows"
    using settle_Inr [OF settle] by (simp add: tx_write_def)
  with commit have "commit (settle_writes d ?rows)
      (counted d\<lparr>orders := AList.update (next_order_id d) (new_order uId sh now items)
                              (orders (counted d))\<rparr>) = Inr d2"
    by simp
  from commit_settle_nonneg [OF ok _ this] assms have "stock_nonneg d2"
    by (simp add: stock_nonneg_def)
  with res show ?thesis by simp
qed

lemma createOrder_writes_checked:
  assumes "products (snd (createOrder pol uId sh now d)) \<noteq> products d"
  shows "list_all (\<lambda>(ref, c). line_ok d c) (cart_of d uId)"
proof (rule ccontr)
  assume "\<not> list_all (\<lambda>(ref, c). line_ok d c) (cart_of d uId)"
  then obtain r where "find (\<lambda>(ref, c). \<not> line_ok d c) (cart_of d uId) = Some r"
    by (cases "find (\<lambda>(ref, c). \<not> line_ok d c) (cart_of d uId)")
       (auto simp: find_None_iff list_all_iff)
  then have "fst (createOrder pol uId sh now d) = Fail (order_error d (snd r))"
    using createOrder_bad_line [of d uId "fst r" "snd r" pol sh now] by simp
  then have "products (snd (createOrder pol uId sh now d)) = products d"
    by (simp add: createOrder_failure_frame)
  with assms show False by simp
qed

lemma apply_op_nonneg: "stock_nonneg d \<Longrightarrow> stock_nonneg (apply_op pol x d)"
proof (cases x)
  case (AddToCart uId pId q)
  assume "stock_nonneg d"
  then show ?thesis
    by (auto simp: AddToCart addToCart_eval stock_nonneg_def split: option.splits)
next
  case (UpdateCartItem uId pId q)
  assume "stock_nonneg d"
  then show ?thesis
    by (auto simp: UpdateCartItem updateCartItem_def stock_nonneg_def split: option.splits)
next
  case (PlaceOrder uId sh now)
  assume "stock_nonneg d"
  then show ?thesis
    by (simp add: PlaceOrder createOrder_nonneg)
qed

text \<open>
  C3.  If every product's stock is non-negative, it is so after any finite sequence of
  \<open>addToCart\<close>, \<open>updateCartItem\<close> and \<open>createOrder\<close>, under either discipline of the store.
  \<open>addToCart\<close> and \<open>updateCartItem\<close> leave the products as they are, and \<open>createOrder\<close>
  changes them only when every row of the cart has passed the check against the stock
  read in the same transaction.
\<close>

theorem stock_never_negative:
  assumes "stock_nonneg d"
  shows "stock_nonneg (run_ops pol ops d)
       \<and> products (snd (addToCart pol uId pId q d)) = products d
       \<and> products (snd (updateCartItem uId pId q d)) = products d
       \<and> (products (snd (createOrder pol uId sh now d)) \<noteq> products d \<longrightarrow>
            list_all (\<lambda>(ref, c). line_ok d c) (cart_of d uId))"
proof -
  have "stock_nonneg (fold (apply_op pol) ops d)"
    using assms by (induction ops arbitrary: d) (simp_all add: apply_op_nonneg)
  moreover have "products (snd (addToCart pol uId pId q d)) = products d"
    by (simp add: addToCart_eval split: option.splits)
  moreover have "products (snd (updateCartItem uId pId q d)) = products d"
    by (simp add: updateCartItem_def split: option.splits)
  ultimately show ?thesis
    using createOrder_writes_checked [of pol uId sh now d] by (auto simp: run_ops_def)
qed

theorem stock_never_negative_witness:
  "stock_nonneg shop_empty_cart
   \<and> stock_nonneg (run_ops ReadsAnywhere
        [AddToCart 1 7 2, UpdateCartItem 1 7 4, PlaceOrder 1 ship0 5000] shop_empty_cart)
   \<and> map (p_stock \<circ> snd) (products (run_ops ReadsAnywhere
        [AddToCart 1 7 2, UpdateCartItem 1 7 4, PlaceOrder 1 ship0 5000] shop_empty_cart)) = [1]"
proof -
  have s: "stock_nonneg shop_empty_cart"
    by (simp add: stock_nonneg_def shop_empty_cart_def phoneA_def)
  have r: "map (p_stock \<circ> snd) (products (run_ops ReadsAnywhere
        [AddToCart 1 7 2, UpdateCartItem 1 7 4, PlaceOrder 1 ship0 5000] shop_empty_cart)) = [1]"
    by (simp add: run_ops_def createOrder_def Let_def addToCart_eval updateCartItem_def
        cart_quantity_def nextId_eval runTransaction_def tx_get_def tx_write_def
        shop_empty_cart_def phoneA_def js_add_exact js_sub_exact js_mul_exact
        cong: sum.case_cong)
  from stock_never_negative [OF s, of ReadsAnywhere
        "[AddToCart 1 7 2, UpdateCartItem 1 7 4, PlaceOrder 1 ship0 5000]"] s r
  show ?thesis by simp
qed

section \<open>Properties of the catalog search\<close>

lemma trim_decomposes:
  "\<exists>pre post. s = pre @ trim s @ post \<and> list_all is_space pre \<and> list_all is_space post"
proof -
  let ?a = "dropWhile is_space s"
  have s: "s = takeWhile is_space s @ ?a" by simp
  have "rev (rev ?a) = rev (takeWhile is_space (rev ?a) @ dropWhile is_space (rev ?a))"
    by (simp only: takeWhile_dropWhile_id)
  then have "?a = rev (dropWhile is_space (rev ?a)) @ rev (takeWhile is_space (rev ?a))"
    by (simp only: rev_rev_ident rev_append)
  then have "s = takeWhile is_space s @ trim s @ rev (takeWhile is_space (rev ?a))"
    using s by (simp add: trim_def)
  moreover have "list_all is_space (takeWhile is_space s)"
    by (auto simp: list_all_iff dest: set_takeWhileD)
  moreover have "list_all is_space (rev (takeWhile is_space (rev ?a)))"
    by (auto simp: list_all_iff dest: set_takeWhileD)
  ultimately show ?thesis by blast
qed

lemma trim_hd: "trim s = [] \<or> \<not> is_space (hd (trim s))"
proof (cases "dropWhile is_space s")
  case Nil
  show ?thesis by (simp add: trim_def Nil)
next
  case (Cons x a)
  then have x: "\<not> is_space x" by (simp add: dropWhile_eq_Cons_conv)
  have "dropWhile is_space (rev a @ [x]) =
          (if \<forall>y \<in> set (rev a). is_space y then [x] else dropWhile is_space (rev a) @ [x])"
    using x by (simp add: dropWhile_append)
  then have "\<exists>zs. dropWhile is_space (rev a @ [x]) = zs @ [x]"
    by (cases "\<forall>y \<in> set (rev a). is_space y") simp_all
  then obtain zs where "dropWhile is_space (rev a @ [x]) = zs @ [x]" ..
  then have "trim s = x # rev zs" by (simp add: trim_def Cons)
  with x show ?thesis by simp
qed

lemma trim_last: "trim s = [] \<or> \<not> is_space (last (trim s))"
proof (cases "dropWhile is_space (rev (dropWhile is_space s))")
  case Nil
  show ?thesis by (simp add: trim_def Nil)
next
  case (Cons x a)
  then have "\<not> is_space x" by (simp add: dropWhile_eq_Cons_conv)
  then show ?thesis by (simp add: trim_def Cons)
qed

lemma js_includes_sublist: "js_includes s t \<longleftrightarrow> sublist t s"
  by (induction s) (auto simp: sublist_Cons_right)

lemma split_ws_Nil: "split_ws [] = [[]]"
  by (subst split_ws.simps) simp

lemma split_ws_Cons:
  "split_ws (c # cs) =
     (if is_space c then [] # split_ws (dropWhile is_space cs)
      else (c # hd (split_ws cs)) # tl (split_ws cs))"
  by (subst split_ws.simps, subst (3 4) split_ws.simps) simp

lemma query_tokens_Nil: "query_tokens [] = []"
  by (simp add: query_tokens_def split_ws_Nil)

lemma query_tokens_nonempty:
  assumes "key \<noteq> []" and "\<not> is_space (hd key)"
  shows "query_tokens key \<noteq> []"
proof -
  from assms have "takeWhile (\<lambda>c. \<not> is_space c) key \<noteq> []"
    by (cases key) auto
  then have "takeWhile (\<lambda>c. \<not> is_space c) key \<in> set (query_tokens key)"
    unfolding query_tokens_def by (subst split_ws.simps) simp
  then show ?thesis by auto
qed

lemma query_tokens_normalizeText:
  "query_tokens (normalizeText U q) = [] \<longleftrightarrow> normalizeText U q = []"
  using trim_hd [of "lowered U q"] query_tokens_nonempty [of "normalizeText U q"]
  by (auto simp: normalizeText_def lowered_def query_tokens_Nil)

text \<open>Splitting on runs of whitespace and dropping the empty pieces gives the tokens.\<close>

lemma query_tokens_space:
  "is_space c \<Longrightarrow> query_tokens (c # cs) = query_tokens (dropWhile is_space cs)"
  by (simp add: query_tokens_def split_ws_Cons)

lemma query_tokens_dropWhile: "query_tokens (dropWhile is_space cs) = query_tokens cs"
  by (induction cs) (simp_all add: query_tokens_space)

lemma split_ws_word:
  assumes "\<forall>c \<in> set w. \<not> is_space c"
  shows "split_ws w = [w]"
proof -
  from assms have tw: "takeWhile (\<lambda>c. \<not> is_space c) w = w"
    and dw: "dropWhile (\<lambda>c. \<not> is_space c) w = []"
    by simp_all
  show ?thesis by (subst split_ws.simps) (simp only: tw dw list.case)
qed

lemma split_ws_word_space:
  assumes "\<forall>c \<in> set w. \<not> is_space c" and "is_space c"
  shows "split_ws (w @ c # cs) = w # split_ws (dropWhile is_space cs)"
proof -
  from assms have tw: "takeWhile (\<lambda>c. \<not> is_space c) (w @ c # cs) = w"
    by (simp add: takeWhile_append2)
  from assms have dw: "dropWhile (\<lambda>c. \<not> is_space c) (w @ c # cs) = c # cs"
    by (simp add: dropWhile_append2)
  show ?thesis by (subst split_ws.simps) (simp only: tw dw list.case)
qed

lemma claimed_tokens_from_eq:
  "\<forall>c \<in> set w. \<not> is_space c \<Longrightarrow> claimed_tokens_from w s = query_tokens (w @ s)"
proof (induction s arbitrary: w)
  case Nil
  then show ?case by (simp add: query_tokens_def split_ws_word)
next
  case (Cons c cs)
  show ?case
  proof (cases "is_space c")
    case True
    have "query_tokens (w @ c # cs) = (if w = [] then [] else [w]) @ query_tokens cs"
      using Cons.prems True
      by (simp add: query_tokens_def split_ws_word_space
          query_tokens_dropWhile [unfolded query_tokens_def])
    moreover have "claimed_tokens_from [] cs = query_tokens cs"
      using Cons.IH [of "[]"] by simp
    ultimately show ?thesis using True by simp
  next
    case False
    with Cons.prems have "\<forall>x \<in> set (w @ [c]). \<not> is_space x" by simp
    from Cons.IH [OF this] False show ?thesis by simp
  qed
qed

lemma query_tokens_claimed: "query_tokens key = claimed_tokens key"
  using claimed_tokens_from_eq [of "[]" key] by (simp add: claimed_tokens_def)

text \<open>The tokens that the claim speaks of are the maximal runs without whitespace.\<close>

lemma is_token_word:
  assumes w: "\<forall>c \<in> set w. \<not> is_space c"
  shows "is_token w t \<longleftrightarrow> t = w \<and> w \<noteq> []"
proof
  assume "is_token w t"
  then obtain pre post where t: "t \<noteq> []" and eq: "w = pre @ t @ post"
    and pre: "pre = [] \<or> is_space (last pre)" and post: "post = [] \<or> is_space (hd post)"
    by (auto simp: is_token_def)
  have "pre = []"
  proof (rule ccontr)
    assume "pre \<noteq> []"
    with pre have "is_space (last pre)" "last pre \<in> set w" by (auto simp: eq)
    with w show False by blast
  qed
  moreover have "post = []"
  proof (rule ccontr)
    assume "post \<noteq> []"
    with post have "is_space (hd post)" "hd post \<in> set w" by (auto simp: eq)
    with w show False by blast
  qed
  ultimately show "t = w \<and> w \<noteq> []" using t eq by simp
next
  assume "t = w \<and> w \<noteq> []"
  moreover have "w = [] @ w @ []" by simp
  ultimately show "is_token w t" using w unfolding is_token_def by blast
qed

lemma is_token_space:
  assumes w: "\<forall>c \<in> set w. \<not> is_space c" and c: "is_space c"
  shows "is_token (w @ c # cs) t \<longleftrightarrow> (t = w \<and> w \<noteq> []) \<or> is_token cs t"
proof
  assume "is_token (w @ c # cs) t"
  then obtain pre post where t: "t \<noteq> []" "\<forall>x \<in> set t. \<not> is_space x"
    and eq: "w @ c # cs = pre @ t @ post"
    and pre: "pre = [] \<or> is_space (last pre)" and post: "post = [] \<or> is_space (hd post)"
    by (auto simp: is_token_def)
  show "(t = w \<and> w \<noteq> []) \<or> is_token cs t"
  proof (cases "pre = []")
    case True
    with eq have e: "w @ c # cs = t @ post" by simp
    then consider us where "w = t @ us" "us @ c # cs = post" | us where "w @ us = t" "c # cs = us @ post"
      by (auto simp: append_eq_append_conv2)
    then show ?thesis
    proof cases
      case 1
      have "us = []"
      proof (rule ccontr)
        assume "us \<noteq> []"
        then have "hd post = hd us" "hd us \<in> set w" "post \<noteq> []" using 1 by auto
        with post w show False by auto
      qed
      with 1 t show ?thesis by simp
    next
      case 2
      have "us = []"
      proof (rule ccontr)
        assume "us \<noteq> []"
        with 2(2) have "hd us = c" by (cases us) auto
        with \<open>us \<noteq> []\<close> 2(1) have "c \<in> set t" by (cases us) auto
        with t c show False by blast
      qed
      with 2 t show ?thesis by auto
    qed
  next
    case False
    with pre have sp: "is_space (last pre)" by simp
    from eq consider us where "w = pre @ us" "us @ c # cs = t @ post" | us where "w @ us = pre" "c # cs = us @ t @ post"
      by (auto simp: append_eq_append_conv2)
    then show ?thesis
    proof cases
      case 1
      with False have "last pre \<in> set w" by auto
      with w sp show ?thesis by blast
    next
      case 2
      have "us \<noteq> []"
      proof
        assume "us = []"
        with 2 False have "last pre \<in> set w" by auto
        with w sp show False by blast
      qed
      with 2(2) obtain pre' where us: "us = c # pre'" and cs: "cs = pre' @ t @ post"
        by (cases us) auto
      have "pre' = [] \<or> is_space (last pre')"
        using sp 2(1) us by (auto simp: last_append split: if_splits)
      with t cs post have "is_token cs t" by (auto simp: is_token_def)
      then show ?thesis ..
    qed
  qed
next
  assume "(t = w \<and> w \<noteq> []) \<or> is_token cs t"
  then show "is_token (w @ c # cs) t"
  proof
    assume "t = w \<and> w \<noteq> []"
    with w c have "w @ c # cs = [] @ t @ (c # cs)" "is_space (hd (c # cs))" by simp_all
    with \<open>t = w \<and> w \<noteq> []\<close> w show ?thesis unfolding is_token_def by blast
  next
    assume "is_token cs t"
    then obtain pre post where t: "t \<noteq> []" "\<forall>x \<in> set t. \<not> is_space x"
      and eq: "cs = pre @ t @ post"
      and pre: "pre = [] \<or> is_space (last pre)" and post: "post = [] \<or> is_space (hd post)"
      by (auto simp: is_token_def)
    have "w @ c # cs = (w @ c # pre) @ t @ post" by (simp add: eq)
    moreover have "is_space (last (w @ c # pre))" using pre c by auto
    ultimately show ?thesis using t post unfolding is_token_def by blast
  qed
qed

lemma claimed_tokens_from_iff:
  "\<forall>c \<in> set w. \<not> is_space c \<Longrightarrow> t \<in> set (claimed_tokens_from w s) \<longleftrightarrow> is_token (w @ s) t"
proof (induction s arbitrary: w)
  case Nil
  then show ?case by (auto simp: is_token_word)
next
  case (Cons c cs)
  show ?case
  proof (cases "is_space c")
    case True
    have "t \<in> set (claimed_tokens_from [] cs) \<longleftrightarrow> is_token cs t"
      using Cons.IH [of "[]"] by simp
    with True Cons.prems show ?thesis by (auto simp: is_token_space)
  next
    case False
    with Cons.prems have "\<forall>x \<in> set (w @ [c]). \<not> is_space x" by simp
    from Cons.IH [OF this] False show ?thesis by simp
  qed
qed

lemma claimed_tokens_iff: "t \<in> set (claimed_tokens key) \<longleftrightarrow> is_token key t"
  using claimed_tokens_from_iff [of "[]" t key] by (simp add: claimed_tokens_def)

lemma query_tokens_iff: "t \<in> set (query_tokens key) \<longleftrightarrow> is_token key t"
  by (simp add: query_tokens_claimed claimed_tokens_iff)

lemma stroke_maps:
  "replace_D_stroke (replace_d_stroke s) =
     map (\<lambda>c. if c = 0x111 then 0x64 else if c = 0x110 then 0x44 else c) s"
  by (induction s) (simp_all add: replace_D_stroke_def replace_d_stroke_def)

text \<open>
  C7.  The claim that \<open>normalizeText\<close> collapses internal runs of whitespace to a single
  space fails: two spaces inside the string are still two spaces in the result.
\<close>

theorem normalizeText_keeps_inner_spaces:
  "normalizeText basic_latin (js ''iPhone  16'') = js ''iphone  16''"
  by (simp add: normalizeText_def basic_latin_def js_def trim_def is_space_def
      strip_diacritics_def replace_d_stroke_def replace_D_stroke_def)

text \<open>
  C7, as amended.  \<open>normalizeText\<close> decomposes the string, removes the combining marks
  U+0300 to U+036F, writes d for U+0111 and D for U+0110, lower-cases, and removes leading
  and trailing whitespace only: the result is the lower-cased string without a prefix and
  a suffix of whitespace, it neither starts nor ends with whitespace, and whitespace
  inside it is kept as it is.
\<close>

theorem normalizeText_stages:
  "(\<exists>pre post. lowered U value = pre @ normalizeText U value @ post
        \<and> list_all is_space pre \<and> list_all is_space post)
   \<and> (normalizeText U value = [] \<or>
        (\<not> is_space (hd (normalizeText U value)) \<and> \<not> is_space (last (normalizeText U value))))
   \<and> lowered U value =
        toLowerCase U (map (\<lambda>c. if c = 0x111 then 0x64 else if c = 0x110 then 0x44 else c)
                         (filter (\<lambda>c. \<not> (0x300 \<le> c \<and> c \<le> 0x36F)) (nfd U value)))
   \<and> list_all (\<lambda>c. \<not> (0x300 \<le> c \<and> c \<le> 0x36F) \<and> c \<noteq> 0x111 \<and> c \<noteq> 0x110)
        (replace_D_stroke (replace_d_stroke (strip_diacritics (nfd U value))))"
proof -
  have "\<exists>pre post. lowered U value = pre @ normalizeText U value @ post
        \<and> list_all is_space pre \<and> list_all is_space post"
    using trim_decomposes [of "lowered U value"] by (simp add: normalizeText_def lowered_def)
  moreover have "normalizeText U value = [] \<or>
        (\<not> is_space (hd (normalizeText U value)) \<and> \<not> is_space (last (normalizeText U value)))"
    using trim_hd [of "lowered U value"] trim_last [of "lowered U value"]
    by (auto simp: normalizeText_def lowered_def)
  moreover have "lowered U value =
        toLowerCase U (map (\<lambda>c. if c = 0x111 then 0x64 else if c = 0x110 then 0x44 else c)
                         (filter (\<lambda>c. \<not> (0x300 \<le> c \<and> c \<le> 0x36F)) (nfd U value)))"
    by (simp add: lowered_def stroke_maps strip_diacritics_def)
  moreover have "list_all (\<lambda>c. \<not> (0x300 \<le> c \<and> c \<le> 0x36F) \<and> c \<noteq> 0x111 \<and> c \<noteq> 0x110)
        (replace_D_stroke (replace_d_stroke (strip_diacritics (nfd U value))))"
    by (auto simp: list_all_iff replace_D_stroke_def replace_d_stroke_def strip_diacritics_def)
  ultimately show ?thesis by blast
qed

theorem normalizeText_stages_witness:
  "normalizeText basic_latin (js ''  iPhone  16 '') = js ''iphone  16''
   \<and> lowered basic_latin (js ''  iPhone  16 '') = js ''  iphone  16 ''
   \<and> normalizeText basic_latin (js ''  iPhone  16 '') \<noteq> []
   \<and> \<not> is_space (hd (normalizeText basic_latin (js ''  iPhone  16 '')))
   \<and> \<not> is_space (last (normalizeText basic_latin (js ''  iPhone  16 '')))"
  using normalizeText_stages [of basic_latin "js ''  iPhone  16 ''"]
  by (simp add: normalizeText_def lowered_def basic_latin_def js_def trim_def is_space_def
      strip_diacritics_def replace_d_stroke_def replace_D_stroke_def)

lemma claimed_score_shift:
  "claimed_score U q p =
     score U (normalizeText U q) (query_tokens (normalizeText U q)) p
       + (if normalizeText U q = [] then 35 else 0)"
proof (cases "normalizeText U q = []")
  case True
  then show ?thesis
    by (simp add: claimed_score_def score_def Let_def query_tokens_Nil js_includes_sublist
        query_tokens_claimed [symmetric])
next
  case False
  then have "query_tokens (normalizeText U q) \<noteq> []"
    by (simp add: query_tokens_normalizeText)
  with False show ?thesis
    by (simp add: claimed_score_def score_def Let_def js_includes_sublist list_all_iff
        query_tokens_claimed [symmetric])
qed

lemma score_empty_key: "110 \<le> score U [] [] p"
  by (simp add: score_def Let_def js_includes_sublist)

lemma claimed_score_positive:
  "0 < claimed_score U q p \<longleftrightarrow>
   0 < score U (normalizeText U q) (query_tokens (normalizeText U q)) p"
proof (cases "normalizeText U q = []")
  case True
  with score_empty_key [of U p] show ?thesis
    by (simp add: claimed_score_shift query_tokens_Nil)
next
  case False
  then show ?thesis by (simp add: claimed_score_shift)
qed

lemma claimed_score_nonneg: "0 \<le> claimed_score U q p"
  by (simp add: claimed_score_def Let_def)

lemma claimed_score_kept:
  "claimed_score U q p \<noteq> 0 \<longleftrightarrow>
   0 < score U (normalizeText U q) (query_tokens (normalizeText U q)) p"
  using claimed_score_nonneg [of U q p] claimed_score_positive [of U q p] by linarith

lemma scored_filter:
  "map fst (filter (\<lambda>x. snd x > 0) (map (\<lambda>p. (p, f p)) xs)) = filter (\<lambda>p. f p > (0::int)) xs"
  by (induction xs) simp_all

lemma sorted_wrt_scored:
  fixes f :: "int \<times> product \<Rightarrow> int"
  shows "sorted_wrt (\<lambda>a b. f b < f a \<or> (f b = f a \<and> p_created_at (snd b) \<le> p_created_at (snd a)))
           (map fst (js_sort (\<lambda>a b. if snd b - snd a \<noteq> 0 then snd b - snd a
                                     else p_created_at (snd (fst b)) - p_created_at (snd (fst a)))
                       (filter (\<lambda>x. snd x > 0) (map (\<lambda>p. (p, f p)) xs))))"
proof -
  let ?cmp = "\<lambda>a b :: (int \<times> product) \<times> int. if snd b - snd a \<noteq> 0 then snd b - snd a
                 else p_created_at (snd (fst b)) - p_created_at (snd (fst a))"
  let ?ys = "filter (\<lambda>x. snd x > 0) (map (\<lambda>p. (p, f p)) xs)"
  have sorted: "sorted_wrt (\<lambda>a b. ?cmp a b \<le> 0) (js_sort ?cmp ?ys)"
    by (rule sorted_js_sort) (auto split: if_splits)
  have mem: "set (js_sort ?cmp ?ys) = set ?ys"
    using arg_cong [OF mset_js_sort [of ?cmp ?ys], of set_mset] by simp
  have "sorted_wrt (\<lambda>a b. f (fst b) < f (fst a)
            \<or> (f (fst b) = f (fst a) \<and> p_created_at (snd (fst b)) \<le> p_created_at (snd (fst a))))
      (js_sort ?cmp ?ys)"
  proof (rule sorted_wrt_mono_rel [OF _ sorted])
    fix a b
    assume "a \<in> set (js_sort ?cmp ?ys)" "b \<in> set (js_sort ?cmp ?ys)" "?cmp a b \<le> 0"
    with mem have "snd a = f (fst a)" "snd b = f (fst b)" "?cmp a b \<le> 0"
      by auto
    then show "f (fst b) < f (fst a)
            \<or> (f (fst b) = f (fst a) \<and> p_created_at (snd (fst b)) \<le> p_created_at (snd (fst a)))"
      by (cases "snd b - snd a = 0") auto
  qed
  then show ?thesis by (simp add: sorted_wrt_map)
qed

text \<open>
  C8.  For a non-empty query, \<open>listProducts\<close> returns exactly the candidates whose score,
  summed as the claim words it (\<open>claimed_score\<close>), is not 0, each once, ordered by that
  score descending and among equal scores by \<open>created_at\<close> descending.  When the normalized
  query is not empty, the score that the code computes for a candidate is that sum.
\<close>

theorem listProducts_ranking:
  assumes "q \<noteq> []"
  shows "mset (listProducts U category q d) =
           mset (filter (\<lambda>(i, p). claimed_score U q p \<noteq> 0) (candidates category d))
       \<and> sorted_wrt (\<lambda>(i, p) (j, p').
             claimed_score U q p' < claimed_score U q p
           \<or> (claimed_score U q p' = claimed_score U q p \<and> p_created_at p' \<le> p_created_at p))
           (listProducts U category q d)
       \<and> (normalizeText U q \<noteq> [] \<longrightarrow>
            (\<forall>p. score U (normalizeText U q) (query_tokens (normalizeText U q)) p =
                 claimed_score U q p))"
proof -
  let ?key = "normalizeText U q"
  let ?sc = "\<lambda>x :: int \<times> product. score U ?key (query_tokens ?key) (snd x)"
  let ?ys = "filter (\<lambda>x. snd x > 0) (map (\<lambda>p. (p, ?sc p)) (candidates category d))"
  let ?cmp = "\<lambda>a b :: (int \<times> product) \<times> int. if snd b - snd a \<noteq> 0 then snd b - snd a
                 else p_created_at (snd (fst b)) - p_created_at (snd (fst a))"
  have lp: "listProducts U category q d = map fst (js_sort ?cmp ?ys)"
    using assms by (simp add: listProducts_def candidates_def Let_def)
  have "mset (listProducts U category q d) = mset (map fst ?ys)"
    unfolding lp by (simp add: mset_js_sort)
  also have "map fst ?ys = filter (\<lambda>p. ?sc p > 0) (candidates category d)"
    by (rule scored_filter)
  also have "\<dots> = filter (\<lambda>(i, p). claimed_score U q p \<noteq> 0) (candidates category d)"
    by (rule filter_cong) (auto simp: claimed_score_kept)
  finally have perm: "mset (listProducts U category q d) =
      mset (filter (\<lambda>(i, p). claimed_score U q p \<noteq> 0) (candidates category d))" .
  have "sorted_wrt (\<lambda>a b. ?sc b < ?sc a \<or> (?sc b = ?sc a \<and> p_created_at (snd b) \<le> p_created_at (snd a)))
          (listProducts U category q d)"
    unfolding lp by (rule sorted_wrt_scored)
  then have sorted: "sorted_wrt (\<lambda>(i, p) (j, p').
             claimed_score U q p' < claimed_score U q p
           \<or> (claimed_score U q p' = claimed_score U q p \<and> p_created_at p' \<le> p_created_at p))
           (listProducts U category q d)"
  proof (rule sorted_wrt_mono_rel [rotated])
    fix a b :: "int \<times> product"
    assume "?sc b < ?sc a \<or> (?sc b = ?sc a \<and> p_created_at (snd b) \<le> p_created_at (snd a))"
    then show "(case a of (i, p) \<Rightarrow> \<lambda>(j, p').
             claimed_score U q p' < claimed_score U q p
           \<or> (claimed_score U q p' = claimed_score U q p \<and> p_created_at p' \<le> p_created_at p)) b"
      by (cases a, cases b) (simp add: claimed_score_shift)
  qed
  have same: "score U ?key (query_tokens ?key) p = claimed_score U q p" if "?key \<noteq> []" for p
    using that by (simp add: claimed_score_shift)
  from perm sorted same show ?thesis by simp
qed

lemmas text_eval =
  normalizeText_def basic_latin_def js_def trim_def is_space_def strip_diacritics_def
  replace_d_stroke_def replace_D_stroke_def

lemma norm_queries:
  "normalizeText basic_latin (js ''iphone'') = js ''iphone''"
  "normalizeText basic_latin (js ''pro'') = js ''pro''"
  "normalizeText basic_latin (js ''Pro  iPhone'') = js ''pro  iphone''"
  by (simp_all add: text_eval)

lemma tokens_queries:
  "query_tokens (js ''iphone'') = [js ''iphone'']"
  "query_tokens (js ''pro'') = [js ''pro'']"
  "query_tokens (js ''pro  iphone'') = [js ''pro'', js ''iphone'']"
  by (simp_all add: query_tokens_def js_def split_ws_Cons split_ws_Nil is_space_def)

lemma queries_nonempty:
  "js ''iphone'' \<noteq> []" "js ''pro'' \<noteq> []" "js ''Pro  iPhone'' \<noteq> []" "js ''pro  iphone'' \<noteq> []"
  by (simp_all add: js_def)

lemma scores_iphone:
  "score basic_latin (js ''iphone'') [js ''iphone''] iphone16 = 130"
  "score basic_latin (js ''iphone'') [js ''iphone''] earbuds = 0"
  by (simp_all add: score_def Let_def iphone16_def earbuds_def text_eval)

lemma scores_pro:
  "score basic_latin (js ''pro'') [js ''pro''] iphone16 = 70"
  "score basic_latin (js ''pro'') [js ''pro''] charger = 0"
  "score basic_latin (js ''pro'') [js ''pro''] earbuds = 70"
  "score basic_latin (js ''pro'') [js ''pro''] pro_stand = 230"
  "score basic_latin (js ''pro'') [js ''pro''] cover = 15"
  by (simp_all add: score_def Let_def iphone16_def charger_def earbuds_def pro_stand_def
      cover_def text_eval)

lemma scores_pro_iphone:
  "score basic_latin (js ''pro  iphone'') [js ''pro'', js ''iphone''] iphone16 = 30"
  "score basic_latin (js ''pro  iphone'') [js ''pro'', js ''iphone''] charger = 0"
  "score basic_latin (js ''pro  iphone'') [js ''pro'', js ''iphone''] earbuds = 0"
  "score basic_latin (js ''pro  iphone'') [js ''pro'', js ''iphone''] pro_stand = 0"
  "score basic_latin (js ''pro  iphone'') [js ''pro'', js ''iphone''] cover = 0"
  by (simp_all add: score_def Let_def iphone16_def charger_def earbuds_def pro_stand_def
      cover_def text_eval)

lemma created_ats:
  "p_created_at iphone16 = 1" "p_created_at charger = 3" "p_created_at earbuds = 2"
  "p_created_at pro_stand = 0" "p_created_at cover = 4"
  by (simp_all add: iphone16_def charger_def earbuds_def pro_stand_def cover_def)

text \<open>
  The example of the claim: for the query "iphone" against "iPhone 16 Pro" and "Wireless
  Earbuds Pro", only the first is returned.  On a shelf of five products the query "pro"
  returns four of them: the exact match first, then the two names that contain the query,
  the newer one first, then the product whose description contains it.  The query
  "Pro  iPhone", whose two tokens are both in the name "iPhone 16 Pro" and which is not a
  substring of it, returns that product alone, with the score 30.
\<close>

theorem listProducts_ranking_witness:
  "js ''iphone'' \<noteq> [] \<and> js ''pro'' \<noteq> [] \<and> js ''Pro  iPhone'' \<noteq> []
   \<and> normalizeText basic_latin (js ''Pro  iPhone'') \<noteq> []
   \<and> listProducts basic_latin [] (js ''iphone'') catalog = [(1, iphone16)]
   \<and> claimed_score basic_latin (js ''iphone'') iphone16 = 130
   \<and> claimed_score basic_latin (js ''iphone'') earbuds = 0
   \<and> listProducts basic_latin [] (js ''pro'') shelf =
       [(9, pro_stand), (5, earbuds), (1, iphone16), (11, cover)]
   \<and> map (\<lambda>(i, p). claimed_score basic_latin (js ''pro'') p) (products shelf) =
       [70, 0, 70, 230, 15]
   \<and> claimed_tokens (normalizeText basic_latin (js ''Pro  iPhone'')) = [js ''pro'', js ''iphone'']
   \<and> listProducts basic_latin [] (js ''Pro  iPhone'') shelf = [(1, iphone16)]
   \<and> claimed_score basic_latin (js ''Pro  iPhone'') iphone16 = 30"
proof -
  note ne = queries_nonempty
  have run1: "listProducts basic_latin [] (js ''iphone'') catalog = [(1, iphone16)]"
    by (simp add: listProducts_def Let_def ne norm_queries tokens_queries catalog_def
        scores_iphone js_sort_def)
  have run2: "listProducts basic_latin [] (js ''pro'') shelf =
       [(9, pro_stand), (5, earbuds), (1, iphone16), (11, cover)]"
    by (simp add: listProducts_def Let_def ne norm_queries tokens_queries shelf_def
        scores_pro created_ats js_sort_def)
  have run3: "listProducts basic_latin [] (js ''Pro  iPhone'') shelf = [(1, iphone16)]"
    by (simp add: listProducts_def Let_def ne norm_queries tokens_queries shelf_def
        scores_pro_iphone created_ats js_sort_def)
  have c1: "claimed_score basic_latin (js ''iphone'') iphone16 = 130"
    "claimed_score basic_latin (js ''iphone'') earbuds = 0"
    by (simp_all add: claimed_score_shift norm_queries tokens_queries scores_iphone ne)
  have c2: "map (\<lambda>(i, p). claimed_score basic_latin (js ''pro'') p) (products shelf) =
       [70, 0, 70, 230, 15]"
    by (simp add: claimed_score_shift norm_queries tokens_queries scores_pro ne shelf_def)
  have t3: "claimed_tokens (normalizeText basic_latin (js ''Pro  iPhone'')) = [js ''pro'', js ''iphone'']"
    by (simp add: query_tokens_claimed [symmetric] norm_queries tokens_queries)
  have k3: "normalizeText basic_latin (js ''Pro  iPhone'') \<noteq> []"
    by (simp add: norm_queries ne)
  have "score basic_latin (normalizeText basic_latin (js ''Pro  iPhone''))
          (query_tokens (normalizeText basic_latin (js ''Pro  iPhone''))) iphone16 =
        claimed_score basic_latin (js ''Pro  iPhone'') iphone16"
    using listProducts_ranking [OF ne(3), of basic_latin "[]" shelf] k3 by blast
  then have c3: "claimed_score basic_latin (js ''Pro  iPhone'') iphone16 = 30"
    by (simp add: norm_queries tokens_queries scores_pro_iphone)
  from listProducts_ranking [OF ne(2), of basic_latin "[]" shelf]
       listProducts_ranking [OF ne(1), of basic_latin "[]" catalog]
       ne k3 run1 run2 run3 c1 c2 t3 c3
  show ?thesis by simp
qed

end
